theory Spec2Isabelle
  imports Main "HOL-Library.Sublist" "HOL-Library.AList"
begin

section \<open>Python values of the dashboard script\<close>

text \<open>
  The script (\<^verbatim>\<open>src/app.py\<close>) handles decoded JSON: \<^verbatim>\<open>None\<close>, booleans,
  integers, strings, lists and dicts. A dict is an association list in insertion order
  with one binding per key. JSON numbers with a fraction are outside this model.
  Python's \<^verbatim>\<open>None\<close> is \<open>JNull\<close>.
\<close>

datatype json =
    JNull
  | JBool bool
  | JInt int
  | JStr string
  | JList "json list"
  | JObj "(string \<times> json) list"

text \<open>Truth value of an object, as \<^verbatim>\<open>while url:\<close> tests it.\<close>

fun truthy :: "json \<Rightarrow> bool" where
  "truthy JNull = False"
| "truthy (JBool b) = b"
| "truthy (JInt i) = (i \<noteq> 0)"
| "truthy (JStr s) = (s \<noteq> [])"
| "truthy (JList xs) = (xs \<noteq> [])"
| "truthy (JObj kvs) = (kvs \<noteq> [])"

text \<open>
  Exceptions. The first four are subclasses of \<^verbatim>\<open>requests.exceptions.RequestException\<close>
  (\<^verbatim>\<open>JSONDecodeError\<close> is one since requests 2.27); each carries its message.
\<close>

datatype exn =
    ConnectionError string
  | Timeout string
  | HTTPError string
  | JSONDecodeError string
  | KeyError string
  | TypeError string
  | ParserError string

fun is_RequestException :: "exn \<Rightarrow> bool" where
  "is_RequestException (ConnectionError m) = True"
| "is_RequestException (Timeout m) = True"
| "is_RequestException (HTTPError m) = True"
| "is_RequestException (JSONDecodeError m) = True"
| "is_RequestException (KeyError m) = False"
| "is_RequestException (TypeError m) = False"
| "is_RequestException (ParserError m) = False"

text \<open>A call either returns a value or raises.\<close>

datatype 'a result = Returned 'a | Raised exn

text \<open>\<^verbatim>\<open>d[k]\<close> with a string key: only a dict has string keys.\<close>

fun subscript :: "json \<Rightarrow> string \<Rightarrow> exn + json" where
  "subscript (JObj kvs) k =
     (case map_of kvs k of None \<Rightarrow> Inl (KeyError k) | Some v \<Rightarrow> Inr v)"
| "subscript v k = Inl (TypeError ''subscript'')"

text \<open>\<^verbatim>\<open>d.get(k)\<close> on a dict: the value, or \<^verbatim>\<open>None\<close> when the key is absent.\<close>

definition dict_get :: "(string \<times> json) list \<Rightarrow> string \<Rightarrow> json" where
  "dict_get kvs k = (case map_of kvs k of None \<Rightarrow> JNull | Some v \<Rightarrow> v)"

text \<open>
  What iterating over a value yields (\<^verbatim>\<open>list.extend\<close>, a comprehension): the elements
  of a list, the keys of a dict, the characters of a string; other values are not iterable.
\<close>

fun py_iter :: "json \<Rightarrow> exn + json list" where
  "py_iter (JList xs) = Inr xs"
| "py_iter (JObj kvs) = Inr (map (\<lambda>kv. JStr (fst kv)) kvs)"
| "py_iter (JStr s) = Inr (map (\<lambda>c. JStr [c]) s)"
| "py_iter v = Inl (TypeError ''not iterable'')"

text \<open>\<^verbatim>\<open>str\<close> of an integer: decimal digits, a minus sign when negative.\<close>

definition digit_char :: "nat \<Rightarrow> char" where
  "digit_char n = ''0123456789'' ! n"

fun digits_of :: "nat \<Rightarrow> string" where
  "digits_of n = (if n < 10 then [digit_char n] else digits_of (n div 10) @ [digit_char (n mod 10)])"

declare digits_of.simps [simp del]

definition str_int :: "int \<Rightarrow> string" where
  "str_int i = (if i < 0 then CHR ''-'' # digits_of (nat (- i)) else digits_of (nat i))"

text \<open>
  The text an f-string puts for a value (\<^verbatim>\<open>f"{v}"\<close>, that is \<^verbatim>\<open>str(v)\<close>). For a list or
  a dict it is Python's \<^verbatim>\<open>repr\<close>, which is not part of the script: it is the
  parameter \<open>py_repr\<close>.
\<close>

fun py_str :: "(json \<Rightarrow> string) \<Rightarrow> json \<Rightarrow> string" where
  "py_str py_repr JNull = ''None''"
| "py_str py_repr (JBool b) = (if b then ''True'' else ''False'')"
| "py_str py_repr (JInt i) = str_int i"
| "py_str py_repr (JStr s) = s"
| "py_str py_repr (JList xs) = py_repr (JList xs)"
| "py_str py_repr (JObj kvs) = py_repr (JObj kvs)"

text \<open>
  \<^verbatim>\<open>k in v\<close> for a string \<open>k\<close>: a key of a dict, an element of a list, a substring of a
  string; other values raise.
\<close>

fun py_in :: "string \<Rightarrow> json \<Rightarrow> exn + bool" where
  "py_in k (JObj kvs) = Inr (k \<in> set (map fst kvs))"
| "py_in k (JList xs) = Inr (JStr k \<in> set xs)"
| "py_in k (JStr s) = Inr (sublist k s)"
| "py_in k v = Inl (TypeError ''not iterable'')"

text \<open>\<^verbatim>\<open>str(e)\<close> of an exception: the message it carries.\<close>

fun exn_message :: "exn \<Rightarrow> string" where
  "exn_message (ConnectionError m) = m"
| "exn_message (Timeout m) = m"
| "exn_message (HTTPError m) = m"
| "exn_message (JSONDecodeError m) = m"
| "exn_message (KeyError m) = m"
| "exn_message (TypeError m) = m"
| "exn_message (ParserError m) = m"

section \<open>The network and the page\<close>

text \<open>
  A response of \<^verbatim>\<open>requests.get\<close>: \<open>json_body\<close> is what \<^verbatim>\<open>response.json()\<close> gives for
  the body, the decoded value or the message of the \<^verbatim>\<open>JSONDecodeError\<close> it raises.
\<close>

record response =
  status_code :: int
  response_text :: string
  response_url :: string
  reason :: string
  json_body :: "string + json"

text \<open>A request is answered by a response, or \<^verbatim>\<open>requests.get\<close> raises.\<close>

datatype reply = Failed exn | Response response

text \<open>
  A table (\<^verbatim>\<open>pd.DataFrame(records)\<close>) is the list of its rows in order; \<^verbatim>\<open>len(df)\<close> is
  the number of rows. The type inference pandas applies to columns is outside this model.
\<close>

datatype dataframe = DataFrame "json list"

text \<open>What the script shows on the page.\<close>

datatype ui =
    StError string
  | StWrite string
  | StSubheader string
  | StDataframe dataframe

fun rows :: "dataframe \<Rightarrow> json list" where
  "rows (DataFrame rs) = rs"

text \<open>
  The world a fetch runs in: \<open>pending\<close> holds the outcomes of the next calls of
  \<^verbatim>\<open>requests.get\<close>, in order: a response, or the exception the call raises (a network
  failure, or a URL the library refuses before sending, as it does for one that is not an
  absolute http URL). Every run of the script is described by some such sequence;
  \<open>sent\<close> holds the URLs passed to \<^verbatim>\<open>requests.get\<close> so far and \<open>screen\<close> what was shown
  so far. The endpoint documents \<^verbatim>\<open>next\<close> as a URL or null, and the statements about
  the pages of the matches collection are made for such pages.
\<close>

record world =
  pending :: "reply list"
  sent :: "json list"
  screen :: "ui list"

text \<open>
  \<^verbatim>\<open>requests.get(url, ...)\<close>: records the URL and takes the next outcome. \<open>None\<close> when
  \<open>pending\<close> is used up: the run goes on beyond what \<open>pending\<close> describes.
\<close>

definition requests_get :: "json \<Rightarrow> world \<Rightarrow> (reply \<times> world) option" where
  "requests_get u w =
     (case pending w of
        [] \<Rightarrow> None
      | r # rs \<Rightarrow> Some (r, w\<lparr>pending := rs, sent := sent w @ [u]\<rparr>))"

definition st_show :: "ui \<Rightarrow> world \<Rightarrow> world" where
  "st_show el w = w\<lparr>screen := screen w @ [el]\<rparr>"

definition st_error :: "string \<Rightarrow> world \<Rightarrow> world" where
  "st_error msg w = st_show (StError msg) w"

definition BASE_URL :: string where
  "BASE_URL = ''https://skillcorner.com/api''"

text \<open>The cross mark that starts every error message (U+274C in UTF-8).\<close>

definition cross_mark :: string where
  "cross_mark = [CHR 0xE2, CHR 0x9D, CHR 0x8C]"

text \<open>\<^verbatim>\<open>f"<cross> Error {response.status_code}: {response.text}"\<close>\<close>

definition http_error_message :: "response \<Rightarrow> string" where
  "http_error_message resp =
     cross_mark @ '' Error '' @ str_int (status_code resp) @ '': '' @ response_text resp"

section \<open>fetch_all_matches\<close>

text \<open>
  The body of one iteration on a 200 response (lines 57 to 59):
  \<^verbatim>\<open>data = response.json(); results.extend(data["results"]); url = data.get("next")\<close>.
  It gives the rows the page adds and the next URL, or the exception raised.
\<close>

definition read_page :: "response \<Rightarrow> exn + (json list \<times> json)" where
  "read_page resp =
     (case json_body resp of
        Inl m \<Rightarrow> Inl (JSONDecodeError m)
      | Inr data \<Rightarrow>
          (case subscript data ''results'' of
             Inl e \<Rightarrow> Inl e
           | Inr rs \<Rightarrow>
               (case py_iter rs of
                  Inl e \<Rightarrow> Inl e
                | Inr items \<Rightarrow>
                    (case data of
                       JObj kvs \<Rightarrow> Inr (items, dict_get kvs ''next'')
                     | _ \<Rightarrow> Inl (TypeError ''get'')))))"

text \<open>
  The loop of lines 54 to 62. A non-200 response shows the error and leaves the loop
  (\<^verbatim>\<open>break\<close>) with the rows gathered so far; an exception leaves the function.
\<close>

function matches_loop :: "world \<Rightarrow> json \<Rightarrow> json list \<Rightarrow> (json list result \<times> world) option" where
  "matches_loop w url results =
     (if \<not> truthy url then Some (Returned results, w)
      else
        (case requests_get url w of
           None \<Rightarrow> None
         | Some (Failed e, w') \<Rightarrow> Some (Raised e, w')
         | Some (Response resp, w') \<Rightarrow>
             if status_code resp = 200 then
               (case read_page resp of
                  Inl e \<Rightarrow> Some (Raised e, w')
                | Inr (items, next_url) \<Rightarrow> matches_loop w' next_url (results @ items))
             else Some (Returned results, st_error (http_error_message resp) w')))"
  by pat_completeness auto
termination
  by (relation "measure (\<lambda>(w, url, results). length (pending w))")
     (auto simp: requests_get_def split: list.splits)

declare matches_loop.simps [simp del]

definition matches_url :: string where
  "matches_url = BASE_URL @ ''/matches/?user=true''"

text \<open>Lines 49 to 65: the loop from the first URL, then \<^verbatim>\<open>pd.DataFrame(results)\<close>.\<close>

definition fetch_all_matches :: "world \<Rightarrow> (dataframe result \<times> world) option" where
  "fetch_all_matches w =
     (case matches_loop w (JStr matches_url) [] of
        None \<Rightarrow> None
      | Some (Returned results, w') \<Rightarrow> Some (Returned (DataFrame results), w')
      | Some (Raised e, w') \<Rightarrow> Some (Raised e, w'))"

text \<open>
  A page as the matches endpoint documents it: status 200 and a JSON object whose
  \<^verbatim>\<open>results\<close> is an array. \<open>results_array\<close> is that array, \<open>next_field\<close> the binding
  of \<^verbatim>\<open>next\<close> (\<open>None\<close> when the key is absent), \<open>page_next\<close> what \<^verbatim>\<open>data.get("next")\<close>
  reads from it.
\<close>

definition page_200 :: "response \<Rightarrow> bool" where
  "page_200 p \<longleftrightarrow>
     status_code p = 200 \<and>
     (case json_body p of
        Inr (JObj kvs) \<Rightarrow> (case map_of kvs ''results'' of Some (JList xs) \<Rightarrow> True | _ \<Rightarrow> False)
      | _ \<Rightarrow> False)"

definition results_array :: "response \<Rightarrow> json list" where
  "results_array p =
     (case json_body p of
        Inr (JObj kvs) \<Rightarrow> (case map_of kvs ''results'' of Some (JList xs) \<Rightarrow> xs | _ \<Rightarrow> [])
      | _ \<Rightarrow> [])"

definition next_field :: "response \<Rightarrow> json option" where
  "next_field p = (case json_body p of Inr (JObj kvs) \<Rightarrow> map_of kvs ''next'' | _ \<Rightarrow> None)"

definition page_next :: "response \<Rightarrow> json" where
  "page_next p = (case next_field p of None \<Rightarrow> JNull | Some v \<Rightarrow> v)"

section \<open>fetch_competition_editions\<close>

definition editions_url :: string where
  "editions_url = BASE_URL @ ''/competition_editions/?user=true''"

text \<open>
  \<^verbatim>\<open>response.raise_for_status()\<close> of the requests library: an \<^verbatim>\<open>HTTPError\<close> for a status
  from 400 to 599, with the library's message.
\<close>

definition raise_for_status :: "response \<Rightarrow> exn + unit" where
  "raise_for_status resp =
     (if 400 \<le> status_code resp \<and> status_code resp < 500 then
        Inl (HTTPError (str_int (status_code resp) @ '' Client Error: '' @ reason resp
                          @ '' for url: '' @ response_url resp))
      else if 500 \<le> status_code resp \<and> status_code resp < 600 then
        Inl (HTTPError (str_int (status_code resp) @ '' Server Error: '' @ reason resp
                          @ '' for url: '' @ response_url resp))
      else Inr ())"

text \<open>\<^verbatim>\<open>item[a][b]\<close>\<close>

definition nested :: "json \<Rightarrow> string \<Rightarrow> string \<Rightarrow> exn + json" where
  "nested item a b = (case subscript item a of Inl e \<Rightarrow> Inl e | Inr v \<Rightarrow> subscript v b)"

text \<open>The dict display of lines 31 to 36, its entries evaluated in order.\<close>

definition extract_row :: "(json \<Rightarrow> string) \<Rightarrow> json \<Rightarrow> exn + json" where
  "extract_row py_repr item =
     (case nested item ''competition'' ''id'' of Inl e \<Rightarrow> Inl e | Inr cid \<Rightarrow>
     (case nested item ''competition'' ''name'' of Inl e \<Rightarrow> Inl e | Inr cname \<Rightarrow>
     (case nested item ''season'' ''id'' of Inl e \<Rightarrow> Inl e | Inr sid \<Rightarrow>
     (case nested item ''season'' ''start_year'' of Inl e \<Rightarrow> Inl e | Inr start_year \<Rightarrow>
     (case nested item ''season'' ''end_year'' of Inl e \<Rightarrow> Inl e | Inr end_year \<Rightarrow>
        Inr (JObj [(''competition_id'', cid),
                   (''competition_name'', cname),
                   (''season_id'', sid),
                   (''season_name'',
                      JStr (py_str py_repr start_year @ ''/'' @ py_str py_repr end_year))]))))))"

text \<open>The list comprehension of lines 30 to 38: the first item that raises ends it.\<close>

fun extracted_data :: "(json \<Rightarrow> string) \<Rightarrow> json list \<Rightarrow> exn + json list" where
  "extracted_data py_repr [] = Inr []"
| "extracted_data py_repr (item # items) =
     (case extract_row py_repr item of
        Inl e \<Rightarrow> Inl e
      | Inr row \<Rightarrow>
          (case extracted_data py_repr items of
             Inl e \<Rightarrow> Inl e
           | Inr others \<Rightarrow> Inr (row # others)))"

definition no_results_message :: string where
  "no_results_message =
     cross_mark @ '' API Response does not contain '' @ [CHR 0x27] @ ''results'' @ [CHR 0x27]"

text \<open>Lines 23 to 41, the statements in the \<^verbatim>\<open>try\<close> block after the request.\<close>

definition editions_body ::
  "(json \<Rightarrow> string) \<Rightarrow> response \<Rightarrow> world \<Rightarrow> dataframe option result \<times> world" where
  "editions_body py_repr resp w =
     (case raise_for_status resp of Inl e \<Rightarrow> (Raised e, w) | Inr _ \<Rightarrow>
     (case json_body resp of Inl m \<Rightarrow> (Raised (JSONDecodeError m), w) | Inr data \<Rightarrow>
     (case py_in ''results'' data of Inl e \<Rightarrow> (Raised e, w) | Inr present \<Rightarrow>
        if \<not> present then (Returned None, st_error no_results_message w)
        else
          (case subscript data ''results'' of Inl e \<Rightarrow> (Raised e, w) | Inr rs \<Rightarrow>
          (case py_iter rs of Inl e \<Rightarrow> (Raised e, w) | Inr items \<Rightarrow>
          (case extracted_data py_repr items of Inl e \<Rightarrow> (Raised e, w) | Inr extracted \<Rightarrow>
             (Returned (Some (DataFrame extracted)), w)))))))"

text \<open>
  Lines 17 to 45: the request, the block, and the handler, which catches a
  \<^verbatim>\<open>RequestException\<close> only.
\<close>

definition fetch_competition_editions ::
  "(json \<Rightarrow> string) \<Rightarrow> world \<Rightarrow> (dataframe option result \<times> world) option" where
  "fetch_competition_editions py_repr w =
     (case requests_get (JStr editions_url) w of
        None \<Rightarrow> None
      | Some (r, w') \<Rightarrow>
          Some (case (case r of Failed e \<Rightarrow> (Raised e, w')
                      | Response resp \<Rightarrow> editions_body py_repr resp w') of
                  (Returned v, w'') \<Rightarrow> (Returned v, w'')
                | (Raised e, w'') \<Rightarrow>
                    if is_RequestException e then
                      (Returned None,
                       st_error (cross_mark @ '' API Request Failed: '' @ exn_message e) w'')
                    else (Raised e, w'')))"

section \<open>fetch_dynamic_events\<close>

text \<open>
  \<^verbatim>\<open>pd.read_csv\<close> reads a URL (which it fetches itself) or an uploaded file. What it
  gives for a source, a table or an exception, is the parameter \<open>read_csv\<close> below.
\<close>

datatype csv_source = FromUrl string | FromUpload string

text \<open>What \<^verbatim>\<open>fetch_dynamic_events\<close> returns: a table, or a decoded JSON value (\<^verbatim>\<open>None\<close> is \<open>Value JNull\<close>).\<close>

datatype pyvalue = Table dataframe | Value json

definition events_url :: "(json \<Rightarrow> string) \<Rightarrow> json \<Rightarrow> string \<Rightarrow> string" where
  "events_url py_repr match_id file_format =
     BASE_URL @ ''/match/'' @ py_str py_repr match_id @ ''/dynamic_events/?file_format=''
       @ file_format"

definition fetch_dynamic_events ::
  "(json \<Rightarrow> string) \<Rightarrow> (csv_source \<Rightarrow> exn + dataframe) \<Rightarrow> json \<Rightarrow> string \<Rightarrow> world
     \<Rightarrow> (pyvalue result \<times> world) option" where
  "fetch_dynamic_events py_repr read_csv match_id file_format w =
     (case requests_get (JStr (events_url py_repr match_id file_format)) w of
        None \<Rightarrow> None
      | Some (Failed e, w') \<Rightarrow> Some (Raised e, w')
      | Some (Response resp, w') \<Rightarrow>
          Some (if status_code resp = 200 then
                  if file_format = ''csv'' then
                    (case read_csv (FromUrl (response_url resp)) of
                       Inl e \<Rightarrow> (Raised e, w')
                     | Inr df \<Rightarrow> (Returned (Table df), w'))
                  else
                    (case json_body resp of
                       Inl m \<Rightarrow> (Raised (JSONDecodeError m), w')
                     | Inr v \<Rightarrow> (Returned (Value v), w'))
                else (Returned (Value JNull), st_error (http_error_message resp) w')))"

section \<open>The selection cascade\<close>

text \<open>\<^verbatim>\<open>d[k] = v\<close> on a dict: a key already there keeps its place and takes the new value.\<close>

definition dict_set :: "(string \<times> json) list \<Rightarrow> string \<Rightarrow> json \<Rightarrow> (string \<times> json) list" where
  "dict_set d k v = AList.update k v d"

text \<open>\<^verbatim>\<open>f"{name} ({ident})"\<close>\<close>

definition option_label :: "(json \<Rightarrow> string) \<Rightarrow> json \<Rightarrow> json \<Rightarrow> string" where
  "option_label py_repr name ident = py_str py_repr name @ '' ('' @ py_str py_repr ident @ '')''"

text \<open>
  The dict comprehensions of lines 93 and 98,
  \<^verbatim>\<open>{f"{row[name_col]} ({row[id_col]})": row[id_col] for _, row in df.iterrows()}\<close>,
  with the dict built so far as accumulator.
\<close>

fun options_by ::
  "(json \<Rightarrow> string) \<Rightarrow> string \<Rightarrow> string \<Rightarrow> json list \<Rightarrow> (string \<times> json) list
     \<Rightarrow> exn + (string \<times> json) list" where
  "options_by py_repr name_col id_col [] d = Inr d"
| "options_by py_repr name_col id_col (row # others) d =
     (case subscript row name_col of Inl e \<Rightarrow> Inl e | Inr name \<Rightarrow>
     (case subscript row id_col of Inl e \<Rightarrow> Inl e | Inr ident \<Rightarrow>
        options_by py_repr name_col id_col others
          (dict_set d (option_label py_repr name ident) ident)))"

definition comp_options :: "(json \<Rightarrow> string) \<Rightarrow> dataframe \<Rightarrow> exn + (string \<times> json) list" where
  "comp_options py_repr df_comp_seasons =
     options_by py_repr ''competition_name'' ''competition_id'' (rows df_comp_seasons) []"

definition season_options :: "(json \<Rightarrow> string) \<Rightarrow> dataframe \<Rightarrow> exn + (string \<times> json) list" where
  "season_options py_repr filtered_seasons =
     options_by py_repr ''season_name'' ''season_id'' (rows filtered_seasons) []"

text \<open>
  A cell of a row; a row without the column holds a missing value there. A table has a
  column when one of its rows has the key.
\<close>

definition cell :: "string \<Rightarrow> json \<Rightarrow> json" where
  "cell col row = (case row of JObj kvs \<Rightarrow> dict_get kvs col | _ \<Rightarrow> JNull)"

definition has_column :: "string \<Rightarrow> dataframe \<Rightarrow> bool" where
  "has_column col df =
     list_ex (\<lambda>row. case row of JObj kvs \<Rightarrow> col \<in> set (map fst kvs) | _ \<Rightarrow> False) (rows df)"

text \<open>
  Line 97: \<^verbatim>\<open>df_comp_seasons[df_comp_seasons["competition_id"] == selected_comp_id]\<close>.
  The comparison of pandas never holds for a missing value.
\<close>

definition filtered_seasons :: "json \<Rightarrow> dataframe \<Rightarrow> exn + dataframe" where
  "filtered_seasons selected_comp_id df_comp_seasons =
     (if has_column ''competition_id'' df_comp_seasons then
        Inr (DataFrame (filter (\<lambda>row. cell ''competition_id'' row \<noteq> JNull \<and>
                                      cell ''competition_id'' row = selected_comp_id)
                          (rows df_comp_seasons)))
      else Inl (KeyError ''competition_id''))"

section \<open>The cache and the upload\<close>

text \<open>
  \<^verbatim>\<open>st.cache_data\<close> keeps, for a function without arguments, the value the first call
  returned together with what that call showed; a later call returns the value and
  shows the same again. A call that raises stores nothing.
\<close>

record session =
  page :: world
  editions_cache :: "(dataframe option \<times> ui list) option"
  matches_cache :: "(dataframe \<times> ui list) option"

definition replay :: "ui list \<Rightarrow> world \<Rightarrow> world" where
  "replay shown w = w\<lparr>screen := screen w @ shown\<rparr>"

definition shown_since :: "world \<Rightarrow> world \<Rightarrow> ui list" where
  "shown_since w w' = drop (length (screen w)) (screen w')"

definition cached_fetch_competition_editions ::
  "(json \<Rightarrow> string) \<Rightarrow> session \<Rightarrow> (dataframe option result \<times> session) option" where
  "cached_fetch_competition_editions py_repr s =
     (case editions_cache s of
        Some (v, shown) \<Rightarrow> Some (Returned v, s\<lparr>page := replay shown (page s)\<rparr>)
      | None \<Rightarrow>
          (case fetch_competition_editions py_repr (page s) of
             None \<Rightarrow> None
           | Some (Raised e, w') \<Rightarrow> Some (Raised e, s\<lparr>page := w'\<rparr>)
           | Some (Returned v, w') \<Rightarrow>
               Some (Returned v,
                     s\<lparr>page := w', editions_cache := Some (v, shown_since (page s) w')\<rparr>)))"

definition cached_fetch_all_matches :: "session \<Rightarrow> (dataframe result \<times> session) option" where
  "cached_fetch_all_matches s =
     (case matches_cache s of
        Some (v, shown) \<Rightarrow> Some (Returned v, s\<lparr>page := replay shown (page s)\<rparr>)
      | None \<Rightarrow>
          (case fetch_all_matches (page s) of
             None \<Rightarrow> None
           | Some (Raised e, w') \<Rightarrow> Some (Raised e, s\<lparr>page := w'\<rparr>)
           | Some (Returned v, w') \<Rightarrow>
               Some (Returned v,
                     s\<lparr>page := w', matches_cache := Some (v, shown_since (page s) w')\<rparr>)))"

text \<open>
  Lines 177 to 181: the uploaded file, if there is one, is parsed and shown.
  \<open>uploaded_file\<close> is \<open>None\<close> when nothing was uploaded, else the file's content.
\<close>

definition upload_section ::
  "(csv_source \<Rightarrow> exn + dataframe) \<Rightarrow> string option \<Rightarrow> session \<Rightarrow> unit result \<times> session" where
  "upload_section read_csv uploaded_file s =
     (case uploaded_file of
        None \<Rightarrow> (Returned (), s)
      | Some content \<Rightarrow>
          (case read_csv (FromUpload content) of
             Inl e \<Rightarrow> (Raised e, s)
           | Inr df_uploaded \<Rightarrow>
               (Returned (),
                s\<lparr>page := st_show (StDataframe df_uploaded)
                              (st_show (StSubheader ''Uploaded Dynamic Events Data'') (page s))\<rparr>)))"

text \<open>
  The pages of one complete walk along the cursor: there is at least one page, every
  page but the last has a \<^verbatim>\<open>next\<close> that counts as true, and the last has one that does
  not.
\<close>

fun cursor_chain :: "response list \<Rightarrow> bool" where
  "cursor_chain [] = False"
| "cursor_chain (p # ps) = (if truthy (page_next p) then cursor_chain ps else ps = [])"

section \<open>Example data\<close>

definition match_row :: "int \<Rightarrow> json" where
  "match_row i = JObj [(''id'', JInt i), (''competition_id'', JInt 5), (''season_id'', JInt 10)]"

definition ok_response :: "json \<Rightarrow> response" where
  "ok_response data =
     \<lparr>status_code = 200, response_text = [], response_url = BASE_URL, reason = ''OK'',
      json_body = Inr data\<rparr>"

definition matches_page :: "json list \<Rightarrow> json \<Rightarrow> response" where
  "matches_page items next_url = ok_response (JObj [(''results'', JList items), (''next'', next_url)])"

definition page_2_url :: json where
  "page_2_url = JStr (BASE_URL @ ''/matches/?user=true&offset=2'')"

definition server_error :: response where
  "server_error =
     \<lparr>status_code = 500, response_text = ''oops'', response_url = BASE_URL,
      reason = ''Internal Server Error'', json_body = Inl ''Expecting value''\<rparr>"

definition edition_item :: "int \<Rightarrow> string \<Rightarrow> int \<Rightarrow> int \<Rightarrow> int \<Rightarrow> json" where
  "edition_item cid cname sid start_year end_year =
     JObj [(''competition'', JObj [(''id'', JInt cid), (''name'', JStr cname)]),
           (''season'', JObj [(''id'', JInt sid), (''start_year'', JInt start_year),
                              (''end_year'', JInt end_year)])]"

definition events_json :: json where
  "events_json = JList [JObj [(''event_type'', JStr ''pass''), (''frame'', JInt 12)]]"

definition events_table :: dataframe where
  "events_table = DataFrame [JObj [(''event_type'', JStr ''pass''), (''frame'', JInt 12)]]"

text \<open>
  A CSV text of one event, and \<^verbatim>\<open>pd.read_csv\<close> in a run where the resource behind the
  URL and the uploaded file both hold this text: either source gives the table of that
  event.
\<close>

definition events_csv :: string where
  "events_csv = ''event_type,frame'' @ [CHR 0x0A] @ ''pass,12'' @ [CHR 0x0A]"

definition csv_reader :: "csv_source \<Rightarrow> exn + dataframe" where
  "csv_reader src = Inr events_table"

definition cached_session :: session where
  "cached_session =
     \<lparr>page = \<lparr>pending = [], sent = [], screen = []\<rparr>,
      editions_cache = Some (Some (DataFrame []), []),
      matches_cache = Some (DataFrame [match_row 1], [])\<rparr>"

definition reference_rows :: "(int \<times> string \<times> int \<times> string) list" where
  "reference_rows =
     [(5, ''Premier League'', 10, ''2023/2024''),
      (5, ''Premier League'', 11, ''2024/2025''),
      (7, ''La Liga'', 10, ''2023/2024'')]"

section \<open>Vocabulary of the statements\<close>

text \<open>
  A competition-edition record that holds the nested fields \<^verbatim>\<open>competition.id\<close>,
  \<^verbatim>\<open>competition.name\<close>, \<^verbatim>\<open>season.id\<close>, \<^verbatim>\<open>season.start_year\<close> and \<^verbatim>\<open>season.end_year\<close>.
\<close>

definition has_keys :: "string list \<Rightarrow> json \<Rightarrow> bool" where
  "has_keys ks v = (case v of JObj kvs \<Rightarrow> list_all (\<lambda>k. k \<in> set (map fst kvs)) ks | _ \<Rightarrow> False)"

definition has_edition_fields :: "json \<Rightarrow> bool" where
  "has_edition_fields item \<longleftrightarrow>
     has_keys [''competition'', ''season''] item \<and>
     has_keys [''id'', ''name''] (cell ''competition'' item) \<and>
     has_keys [''id'', ''start_year'', ''end_year''] (cell ''season'' item)"

text \<open>
  The row of a record, as lines 31 to 36 build it from the record's nested fields.
\<close>

definition edition_row :: "(json \<Rightarrow> string) \<Rightarrow> json \<Rightarrow> json" where
  "edition_row py_repr item =
     JObj [(''competition_id'', cell ''id'' (cell ''competition'' item)),
           (''competition_name'', cell ''name'' (cell ''competition'' item)),
           (''season_id'', cell ''id'' (cell ''season'' item)),
           (''season_name'',
              JStr (py_str py_repr (cell ''start_year'' (cell ''season'' item)) @ ''/'' @
                    py_str py_repr (cell ''end_year'' (cell ''season'' item))))]"

text \<open>
  The \<^verbatim>\<open>next\<close> of a page as the endpoint documents it, a URL or null: the key is absent,
  or holds null, or holds an absolute http URL. \<open>next_missing\<close> says that it is null or
  absent.
\<close>

definition is_http_url :: "string \<Rightarrow> bool" where
  "is_http_url s \<longleftrightarrow> prefix ''http://'' s \<or> prefix ''https://'' s"

definition next_missing :: "response \<Rightarrow> bool" where
  "next_missing p \<longleftrightarrow> next_field p = None \<or> next_field p = Some JNull"

definition next_documented :: "response \<Rightarrow> bool" where
  "next_documented p \<longleftrightarrow>
     (case next_field p of
        None \<Rightarrow> True
      | Some JNull \<Rightarrow> True
      | Some (JStr s) \<Rightarrow> is_http_url s
      | Some v \<Rightarrow> False)"

text \<open>The keys of a row, in order.\<close>

definition row_fields :: "json \<Rightarrow> string list" where
  "row_fields row = (case row of JObj kvs \<Rightarrow> map fst kvs | _ \<Rightarrow> [])"

definition four_fields :: "json \<Rightarrow> bool" where
  "four_fields row \<longleftrightarrow>
     row_fields row = [''competition_id'', ''competition_name'', ''season_id'', ''season_name'']"

text \<open>
  A row of the reference table as the data model has it (\<^verbatim>\<open>CompetitionSeasonRow\<close>):
  integer ids, string names.
\<close>

definition CompetitionSeasonRow :: "int \<times> string \<times> int \<times> string \<Rightarrow> json" where
  "CompetitionSeasonRow r =
     (case r of (competition_id, competition_name, season_id, season_name) \<Rightarrow>
        JObj [(''competition_id'', JInt competition_id),
              (''competition_name'', JStr competition_name),
              (''season_id'', JInt season_id),
              (''season_name'', JStr season_name)])"

definition reference_table :: "(int \<times> string \<times> int \<times> string) list \<Rightarrow> dataframe" where
  "reference_table rs = DataFrame (map CompetitionSeasonRow rs)"

text \<open>The (name, id) pair of a row's competition and of its season.\<close>

definition competition_of :: "int \<times> string \<times> int \<times> string \<Rightarrow> string \<times> int" where
  "competition_of r = (case r of (cid, cname, sid, sname) \<Rightarrow> (cname, cid))"

definition season_of :: "int \<times> string \<times> int \<times> string \<Rightarrow> string \<times> int" where
  "season_of r = (case r of (cid, cname, sid, sname) \<Rightarrow> (sname, sid))"

text \<open>The option a (name, id) pair stands for: its label and its id.\<close>

definition option_of :: "(json \<Rightarrow> string) \<Rightarrow> string \<times> int \<Rightarrow> string \<times> json" where
  "option_of py_repr p = (option_label py_repr (JStr (fst p)) (JInt (snd p)), JInt (snd p))"

section \<open>Properties of fetch_all_matches\<close>

lemma read_page_200:
  "page_200 p \<Longrightarrow> read_page p = Inr (results_array p, page_next p)"
  by (auto simp: page_200_def read_page_def results_array_def page_next_def next_field_def
        dict_get_def split: sum.splits json.splits option.splits)

lemma matches_loop_pending_aux:
  "pending w = rs \<Longrightarrow> matches_loop w url acc = Some (r, w') \<Longrightarrow>
     length (pending w') \<le> length rs \<and>
     (truthy url \<longrightarrow> length (pending w') < length rs)"
proof (induction rs arbitrary: w url acc)
  case Nil
  then show ?case
    by (auto simp: matches_loop.simps [of w url acc] requests_get_def split: if_splits)
next
  case (Cons rp rest)
  have IH: "\<And>u a. matches_loop (w\<lparr>pending := rest, sent := sent w @ [url]\<rparr>) u a = Some (r, w')
              \<Longrightarrow> length (pending w') \<le> length rest"
    using Cons.IH [of "w\<lparr>pending := rest, sent := sent w @ [url]\<rparr>"] by simp
  show ?case
  proof (cases "truthy url")
    case False
    with Cons.prems show ?thesis by (simp add: matches_loop.simps [of w url acc])
  next
    case True
    with Cons.prems show ?thesis
      by (auto simp: matches_loop.simps [of w url acc] requests_get_def st_error_def
            st_show_def split: if_splits reply.splits sum.splits prod.splits dest!: IH)
  qed
qed


lemma matches_loop_not_same_pending:
  assumes "truthy url"
  shows "matches_loop \<lparr>pending = rs, sent = snt, screen = scr\<rparr> url acc
           \<noteq> Some (r, \<lparr>pending = rs, sent = snt', screen = scr'\<rparr>)"
  using matches_loop_pending_aux [of "\<lparr>pending = rs, sent = snt, screen = scr\<rparr>" rs url acc r
      "\<lparr>pending = rs, sent = snt', screen = scr'\<rparr>"] assms
  by auto

lemma matches_loop_step_200:
  assumes "truthy url" "page_200 p"
  shows "matches_loop \<lparr>pending = Response p # rs, sent = snt, screen = scr\<rparr> url acc =
         matches_loop \<lparr>pending = rs, sent = snt @ [url], screen = scr\<rparr> (page_next p)
           (acc @ results_array p)"
proof -
  have "status_code p = 200" using assms(2) by (simp add: page_200_def)
  then show ?thesis
    using assms(1) read_page_200 [OF assms(2)]
    by (simp add: matches_loop.simps [of "\<lparr>pending = Response p # rs, sent = snt, screen = scr\<rparr>"]
          requests_get_def)
qed


lemma cursor_chain_iff:
  "cursor_chain ps \<longleftrightarrow>
     ps \<noteq> [] \<and> list_all (\<lambda>p. truthy (page_next p)) (butlast ps) \<and> \<not> truthy (page_next (last ps))"
  by (induction ps) auto

lemma cursor_chain_nonempty: "cursor_chain ps \<Longrightarrow> ps \<noteq> []"
  by (cases ps) auto

lemma matches_loop_pages:
  assumes "list_all page_200 ps"
  shows "matches_loop \<lparr>pending = map Response ps @ rest, sent = snt, screen = scr\<rparr> url acc
           = Some (Returned res, \<lparr>pending = rest, sent = snt', screen = scr'\<rparr>)
         \<longleftrightarrow>
         (if truthy url
          then cursor_chain ps \<and> res = acc @ concat (map results_array ps) \<and>
               snt' = snt @ url # map page_next (butlast ps) \<and> scr' = scr
          else ps = [] \<and> res = acc \<and> snt' = snt \<and> scr' = scr)"
  using assms
proof (induction ps arbitrary: snt url acc)
  case Nil
  show ?case
  proof (cases "truthy url")
    case True
    then show ?thesis using matches_loop_not_same_pending [OF True] by simp
  next
    case False
    then show ?thesis
      by (auto simp: matches_loop.simps [of "\<lparr>pending = rest, sent = snt, screen = scr\<rparr>"])
  qed
next
  case (Cons p ps)
  have p: "page_200 p" and ps: "list_all page_200 ps" using Cons.prems by simp_all
  show ?case
  proof (cases "truthy url")
    case False
    have "length (Response p # map Response ps @ rest) \<noteq> length rest" by simp
    then have "Response p # map Response ps @ rest \<noteq> rest" by metis
    with False show ?thesis
      by (auto simp: matches_loop.simps
            [of "\<lparr>pending = Response p # map Response ps @ rest, sent = snt, screen = scr\<rparr>"])
  next
    case True
    have step: "matches_loop \<lparr>pending = map Response (p # ps) @ rest, sent = snt, screen = scr\<rparr>
                  url acc =
                matches_loop \<lparr>pending = map Response ps @ rest, sent = snt @ [url], screen = scr\<rparr>
                  (page_next p) (acc @ results_array p)"
      using matches_loop_step_200 [OF True p] by simp
    show ?thesis
      unfolding step Cons.IH [OF ps]
      using True by (auto dest: cursor_chain_nonempty)
  qed
qed

lemma matches_loop_follow:
  assumes "truthy url" "list_all page_200 ps" "list_all (\<lambda>p. truthy (page_next p)) ps"
  shows "matches_loop \<lparr>pending = map Response ps @ rs, sent = snt, screen = scr\<rparr> url acc =
         matches_loop \<lparr>pending = rs, sent = snt @ butlast (url # map page_next ps), screen = scr\<rparr>
           (last (url # map page_next ps)) (acc @ concat (map results_array ps))"
  using assms
proof (induction ps arbitrary: snt url acc)
  case Nil
  then show ?case by simp
next
  case (Cons p ps)
  have "matches_loop \<lparr>pending = map Response (p # ps) @ rs, sent = snt, screen = scr\<rparr> url acc =
        matches_loop \<lparr>pending = map Response ps @ rs, sent = snt @ [url], screen = scr\<rparr>
          (page_next p) (acc @ results_array p)"
    using matches_loop_step_200 [of url p] Cons.prems by simp
  also have "\<dots> = matches_loop
        \<lparr>pending = rs, sent = (snt @ [url]) @ butlast (page_next p # map page_next ps),
           screen = scr\<rparr>
        (last (page_next p # map page_next ps))
        ((acc @ results_array p) @ concat (map results_array ps))"
    using Cons.prems by (intro Cons.IH) simp_all
  finally show ?case by simp
qed


lemma matches_url_truthy: "truthy (JStr matches_url)"
  by (simp add: matches_url_def BASE_URL_def)

lemma matches_loop_stop_non200:
  assumes "truthy url" "status_code bad \<noteq> 200"
  shows "matches_loop \<lparr>pending = Response bad # rest, sent = snt, screen = scr\<rparr> url acc =
         Some (Returned acc,
               \<lparr>pending = rest, sent = snt @ [url],
                screen = scr @ [StError (http_error_message bad)]\<rparr>)"
  using assms
  by (simp add: matches_loop.simps [of "\<lparr>pending = Response bad # rest, sent = snt, screen = scr\<rparr>"]
        requests_get_def st_error_def st_show_def)

lemma matches_loop_stop_failed:
  assumes "truthy url"
  shows "matches_loop \<lparr>pending = Failed e # rest, sent = snt, screen = scr\<rparr> url acc =
         Some (Raised e, \<lparr>pending = rest, sent = snt @ [url], screen = scr\<rparr>)"
  using assms
  by (simp add: matches_loop.simps [of "\<lparr>pending = Failed e # rest, sent = snt, screen = scr\<rparr>"]
        requests_get_def)

lemma butlast_snoc_urls: "snt @ butlast (u # us) @ [last (u # us)] = snt @ u # us"
  using append_butlast_last_id [of "u # us"] by simp

lemma matches_loop_non200:
  assumes "truthy url" "list_all page_200 ps" "list_all (\<lambda>p. truthy (page_next p)) ps"
    "status_code bad \<noteq> 200"
  shows "matches_loop \<lparr>pending = map Response ps @ Response bad # rest, sent = snt, screen = scr\<rparr>
           url acc =
         Some (Returned (acc @ concat (map results_array ps)),
               \<lparr>pending = rest, sent = snt @ url # map page_next ps,
                screen = scr @ [StError (http_error_message bad)]\<rparr>)"
proof -
  have last_truthy: "truthy (last (url # map page_next ps))"
    using assms(1,3) by (induction ps arbitrary: url) auto
  show ?thesis
    unfolding matches_loop_follow [OF assms(1-3)]
      matches_loop_stop_non200 [OF last_truthy assms(4)]
    using butlast_snoc_urls [of snt url "map page_next ps"] by simp
qed

lemma matches_loop_failed:
  assumes "truthy url" "list_all page_200 ps" "list_all (\<lambda>p. truthy (page_next p)) ps"
  shows "matches_loop \<lparr>pending = map Response ps @ Failed e # rest, sent = snt, screen = scr\<rparr>
           url acc =
         Some (Raised e, \<lparr>pending = rest, sent = snt @ url # map page_next ps, screen = scr\<rparr>)"
proof -
  have last_truthy: "truthy (last (url # map page_next ps))"
    using assms(1,3) by (induction ps arbitrary: url) auto
  show ?thesis
    unfolding matches_loop_follow [OF assms(1-3)] matches_loop_stop_failed [OF last_truthy]
    using butlast_snoc_urls [of snt url "map page_next ps"] by simp
qed

lemma matches_page_200 [simp]: "page_200 (matches_page items nxt)"
  by (simp add: page_200_def matches_page_def ok_response_def)

lemma matches_page_results [simp]: "results_array (matches_page items nxt) = items"
  by (simp add: results_array_def matches_page_def ok_response_def)

lemma matches_page_next [simp]: "page_next (matches_page items nxt) = nxt"
  by (simp add: page_next_def next_field_def matches_page_def ok_response_def)

lemma page_2_url_truthy [simp]: "truthy page_2_url"
  by (simp add: page_2_url_def BASE_URL_def)

text \<open>
  Claim C3 at a failing input: the first request times out, and the exception leaves
  \<^verbatim>\<open>fetch_all_matches\<close> (no handler); nothing is returned and nothing is shown.
\<close>

theorem fetch_all_matches_timeout_raises:
  "fetch_all_matches \<lparr>pending = [Failed (Timeout ''Read timed out.'')], sent = [], screen = []\<rparr> =
   Some (Raised (Timeout ''Read timed out.''),
         \<lparr>pending = [], sent = [JStr matches_url], screen = []\<rparr>)"
  using matches_loop_failed [OF matches_url_truthy, of "[]" "Timeout ''Read timed out.''" "[]" "[]" "[]" "[]"]
  by (simp add: fetch_all_matches_def)

text \<open>
  The loop in terms of truth values, for 200 pages with any \<^verbatim>\<open>next\<close>: the call reads
  exactly \<open>pages\<close> and returns exactly when \<open>pages\<close> is not empty, every page but the
  last has a \<^verbatim>\<open>next\<close> that counts as true and the last has one that does not.
\<close>

lemma fetch_all_matches_pages:
  assumes "list_all page_200 pages"
  shows "fetch_all_matches \<lparr>pending = map Response pages @ rest, sent = snt, screen = scr\<rparr>
           = Some (Returned df, \<lparr>pending = rest, sent = snt', screen = scr'\<rparr>)
         \<longleftrightarrow>
         pages \<noteq> [] \<and>
         list_all (\<lambda>p. truthy (page_next p)) (butlast pages) \<and>
         \<not> truthy (page_next (last pages)) \<and>
         df = DataFrame (concat (map results_array pages)) \<and>
         length (rows df) = sum_list (map (\<lambda>p. length (results_array p)) pages) \<and>
         snt' = snt @ JStr matches_url # map page_next (butlast pages) \<and>
         scr' = scr"
proof -
  let ?w = "\<lparr>pending = map Response pages @ rest, sent = snt, screen = scr\<rparr>"
  let ?w' = "\<lparr>pending = rest, sent = snt', screen = scr'\<rparr>"
  have len: "length (concat (map results_array pages)) =
             sum_list (map (\<lambda>p. length (results_array p)) pages)"
    by (simp add: length_concat comp_def)
  have "fetch_all_matches ?w = Some (Returned df, ?w') \<longleftrightarrow>
        (\<exists>res. matches_loop ?w (JStr matches_url) [] = Some (Returned res, ?w') \<and>
               df = DataFrame res)"
    by (auto simp: fetch_all_matches_def split: option.splits result.splits prod.splits)
  also have "\<dots> \<longleftrightarrow>
        (\<exists>res. (cursor_chain pages \<and> res = concat (map results_array pages) \<and>
                snt' = snt @ JStr matches_url # map page_next (butlast pages) \<and> scr' = scr) \<and>
               df = DataFrame res)"
    unfolding matches_loop_pages [OF assms] using matches_url_truthy by simp
  finally show ?thesis
    using len by (auto simp: cursor_chain_iff)
qed

lemma matches_loop_stop_falsy:
  assumes "truthy url" "page_200 p" "\<not> truthy (page_next p)"
  shows "matches_loop \<lparr>pending = Response p # rest, sent = snt, screen = scr\<rparr> url acc =
         Some (Returned (acc @ results_array p),
               \<lparr>pending = rest, sent = snt @ [url], screen = scr\<rparr>)"
  unfolding matches_loop_step_200 [OF assms(1,2)]
  using assms(3)
  by (simp add: matches_loop.simps [of "\<lparr>pending = rest, sent = snt @ [url], screen = scr\<rparr>"])

text \<open>
  Outside what the endpoint documents: a \<^verbatim>\<open>next\<close> that is the empty string counts as
  false, so the loop ends after such a page as well.
\<close>

lemma fetch_all_matches_empty_next:
  "fetch_all_matches
     \<lparr>pending = [Response (matches_page [match_row 1] (JStr [])),
                 Response (matches_page [match_row 2] JNull)],
      sent = [], screen = []\<rparr> =
   Some (Returned (DataFrame [match_row 1]),
         \<lparr>pending = [Response (matches_page [match_row 2] JNull)],
          sent = [JStr matches_url], screen = []\<rparr>)
   \<and> status_code (matches_page [match_row 1] (JStr [])) = 200
   \<and> next_field (matches_page [match_row 1] (JStr [])) = Some (JStr [])
   \<and> next_field (matches_page [match_row 1] (JStr [])) \<noteq> None
   \<and> next_field (matches_page [match_row 1] (JStr [])) \<noteq> Some JNull"
proof -
  have run: "fetch_all_matches
     \<lparr>pending = [Response (matches_page [match_row 1] (JStr [])),
                 Response (matches_page [match_row 2] JNull)],
      sent = [], screen = []\<rparr> =
   Some (Returned (DataFrame [match_row 1]),
         \<lparr>pending = [Response (matches_page [match_row 2] JNull)],
          sent = [JStr matches_url], screen = []\<rparr>)"
    using matches_loop_stop_falsy [OF matches_url_truthy, of "matches_page [match_row 1] (JStr [])"
        "[Response (matches_page [match_row 2] JNull)]" "[]" "[]" "[]"]
    by (simp add: fetch_all_matches_def)
  have nxt: "next_field (matches_page [match_row 1] (JStr [])) = Some (JStr [])"
    by (simp add: next_field_def matches_page_def ok_response_def)
  have st: "status_code (matches_page [match_row 1] (JStr [])) = 200"
    by (simp add: matches_page_def ok_response_def)
  show ?thesis using run nxt st by simp
qed

section \<open>Properties of fetch_competition_editions\<close>

lemma subscript_has_key:
  "has_keys ks v \<Longrightarrow> k \<in> set ks \<Longrightarrow> subscript v k = Inr (cell k v)"
  by (cases v)
     (auto simp: has_keys_def cell_def dict_get_def list_all_iff map_of_eq_None_iff
        split: option.splits)

lemma nested_has_keys:
  "has_keys ks item \<Longrightarrow> a \<in> set ks \<Longrightarrow> has_keys ks' (cell a item) \<Longrightarrow> b \<in> set ks' \<Longrightarrow>
     nested item a b = Inr (cell b (cell a item))"
  by (simp add: nested_def subscript_has_key)

lemma extract_row_fields:
  assumes "has_edition_fields item"
  shows "extract_row py_repr item =
         Inr (JObj [(''competition_id'', cell ''id'' (cell ''competition'' item)),
                    (''competition_name'', cell ''name'' (cell ''competition'' item)),
                    (''season_id'', cell ''id'' (cell ''season'' item)),
                    (''season_name'',
                       JStr (py_str py_repr (cell ''start_year'' (cell ''season'' item)) @ ''/'' @
                             py_str py_repr (cell ''end_year'' (cell ''season'' item))))])"
proof -
  from assms have top: "has_keys [''competition'', ''season''] item"
    and c: "has_keys [''id'', ''name''] (cell ''competition'' item)"
    and s: "has_keys [''id'', ''start_year'', ''end_year''] (cell ''season'' item)"
    by (simp_all add: has_edition_fields_def)
  have 1: "nested item ''competition'' ''id'' = Inr (cell ''id'' (cell ''competition'' item))"
    by (rule nested_has_keys [OF top _ c]) simp_all
  have 2: "nested item ''competition'' ''name'' = Inr (cell ''name'' (cell ''competition'' item))"
    by (rule nested_has_keys [OF top _ c]) simp_all
  have 3: "nested item ''season'' ''id'' = Inr (cell ''id'' (cell ''season'' item))"
    by (rule nested_has_keys [OF top _ s]) simp_all
  have 4: "nested item ''season'' ''start_year'' = Inr (cell ''start_year'' (cell ''season'' item))"
    by (rule nested_has_keys [OF top _ s]) simp_all
  have 5: "nested item ''season'' ''end_year'' = Inr (cell ''end_year'' (cell ''season'' item))"
    by (rule nested_has_keys [OF top _ s]) simp_all
  show ?thesis unfolding extract_row_def 1 2 3 4 5 by simp
qed

lemma cell_season_name:
  "cell ''season_name'' (JObj [(''competition_id'', a), (''competition_name'', b),
      (''season_id'', c), (''season_name'', d)]) = d"
  by (simp add: cell_def dict_get_def)

lemma str_int_2023: "str_int 2023 = ''2023''"
  by (simp add: str_int_def digits_of.simps digit_char_def)

lemma str_int_2024: "str_int 2024 = ''2024''"
  by (simp add: str_int_def digits_of.simps digit_char_def)

lemma edition_item_fields [simp]: "has_edition_fields (edition_item cid cname sid sy ey)"
  by (simp add: has_edition_fields_def has_keys_def edition_item_def cell_def dict_get_def)

lemma edition_item_years [simp]:
  "cell ''start_year'' (cell ''season'' (edition_item cid cname sid sy ey)) = JInt sy"
  "cell ''end_year'' (cell ''season'' (edition_item cid cname sid sy ey)) = JInt ey"
  by (simp_all add: edition_item_def cell_def dict_get_def)

lemma extract_row_four_fields:
  "extract_row py_repr item = Inr row \<Longrightarrow> four_fields row"
  by (auto simp: extract_row_def four_fields_def row_fields_def split: sum.splits)

lemma extracted_data_four_fields:
  "extracted_data py_repr items = Inr extracted \<Longrightarrow> list_all four_fields extracted"
proof (induction items arbitrary: extracted)
  case Nil
  then show ?case by simp
next
  case (Cons item items)
  then show ?case
    by (auto split: sum.splits dest: extract_row_four_fields)
qed

lemma editions_body_four_fields:
  "editions_body py_repr resp w = (Returned (Some df), w') \<Longrightarrow> list_all four_fields (rows df)"
  by (auto simp: editions_body_def split: sum.splits if_splits dest: extracted_data_four_fields)

lemma edition_item_row:
  "extract_row py_repr (edition_item cid cname sid sy ey) =
     Inr (JObj [(''competition_id'', JInt cid), (''competition_name'', JStr cname),
                (''season_id'', JInt sid),
                (''season_name'', JStr (str_int sy @ ''/'' @ str_int ey))])"
  by (simp add: extract_row_def nested_def edition_item_def)

lemma raise_for_status_200: "status_code resp = 200 \<Longrightarrow> raise_for_status resp = Inr ()"
  by (simp add: raise_for_status_def)

text \<open>
  Claim C5, as the code has it. For a 200 response whose body is a JSON object: without
  the key \<^verbatim>\<open>results\<close> the call shows the message and returns \<^verbatim>\<open>None\<close>; with an empty
  \<^verbatim>\<open>results\<close> list it returns the empty table and shows nothing.
\<close>

theorem fetch_competition_editions_no_results:
  assumes "status_code resp = 200" and "json_body resp = Inr (JObj kvs)"
  shows "(''results'' \<notin> set (map fst kvs) \<longrightarrow>
            fetch_competition_editions py_repr
              \<lparr>pending = Response resp # rest, sent = snt, screen = scr\<rparr> =
            Some (Returned None,
                  \<lparr>pending = rest, sent = snt @ [JStr editions_url],
                   screen = scr @ [StError no_results_message]\<rparr>))
       \<and> (map_of kvs ''results'' = Some (JList []) \<longrightarrow>
            fetch_competition_editions py_repr
              \<lparr>pending = Response resp # rest, sent = snt, screen = scr\<rparr> =
            Some (Returned (Some (DataFrame [])),
                  \<lparr>pending = rest, sent = snt @ [JStr editions_url], screen = scr\<rparr>))"
proof (intro conjI impI)
  assume "''results'' \<notin> set (map fst kvs)"
  then show "fetch_competition_editions py_repr
              \<lparr>pending = Response resp # rest, sent = snt, screen = scr\<rparr> =
            Some (Returned None,
                  \<lparr>pending = rest, sent = snt @ [JStr editions_url],
                   screen = scr @ [StError no_results_message]\<rparr>)"
    using assms
    by (simp add: fetch_competition_editions_def requests_get_def editions_body_def
          raise_for_status_200 st_error_def st_show_def)
next
  assume r: "map_of kvs ''results'' = Some (JList [])"
  then have "''results'' \<in> set (map fst kvs)"
    by (metis map_of_eq_None_iff option.distinct(1) set_map)
  then show "fetch_competition_editions py_repr
              \<lparr>pending = Response resp # rest, sent = snt, screen = scr\<rparr> =
            Some (Returned (Some (DataFrame [])),
                  \<lparr>pending = rest, sent = snt @ [JStr editions_url], screen = scr\<rparr>)"
    using assms r
    by (simp add: fetch_competition_editions_def requests_get_def editions_body_def
          raise_for_status_200)
qed

lemma ok_response_simps [simp]:
  "status_code (ok_response data) = 200"
  "json_body (ok_response data) = Inr data"
  by (simp_all add: ok_response_def)

theorem fetch_competition_editions_no_results_witness:
  "status_code (ok_response (JObj [(''detail'', JStr ''none'')])) = 200
   \<and> json_body (ok_response (JObj [(''detail'', JStr ''none'')])) = Inr (JObj [(''detail'', JStr ''none'')])
   \<and> fetch_competition_editions (\<lambda>v. [])
        \<lparr>pending = [Response (ok_response (JObj [(''detail'', JStr ''none'')]))],
         sent = [], screen = []\<rparr> =
      Some (Returned None,
            \<lparr>pending = [], sent = [JStr editions_url], screen = [StError no_results_message]\<rparr>)
   \<and> status_code (ok_response (JObj [(''results'', JList [])])) = 200
   \<and> fetch_competition_editions (\<lambda>v. [])
        \<lparr>pending = [Response (ok_response (JObj [(''results'', JList [])]))],
         sent = [], screen = []\<rparr> =
      Some (Returned (Some (DataFrame [])),
            \<lparr>pending = [], sent = [JStr editions_url], screen = []\<rparr>)"
  using fetch_competition_editions_no_results [of "ok_response (JObj [(''detail'', JStr ''none'')])"
      "[(''detail'', JStr ''none'')]" "\<lambda>v. []" "[]" "[]" "[]"]
    fetch_competition_editions_no_results [of "ok_response (JObj [(''results'', JList [])])"
      "[(''results'', JList [])]" "\<lambda>v. []" "[]" "[]" "[]"]
  by simp

text \<open>
  Against claim C5 as stated: a 200 response with an empty \<^verbatim>\<open>results\<close> list gives a
  table, not \<^verbatim>\<open>None\<close>, and no message.
\<close>

theorem fetch_competition_editions_empty_counterexample:
  "fetch_competition_editions (\<lambda>v. [])
     \<lparr>pending = [Response (ok_response (JObj [(''results'', JList [])]))],
      sent = [], screen = []\<rparr> =
   Some (Returned (Some (DataFrame [])),
         \<lparr>pending = [], sent = [JStr editions_url], screen = []\<rparr>)
   \<and> status_code (ok_response (JObj [(''results'', JList [])])) = 200
   \<and> Some (DataFrame []) \<noteq> (None :: dataframe option)"
  by (simp add: fetch_competition_editions_def requests_get_def editions_body_def
        raise_for_status_200)

section \<open>Properties of fetch_dynamic_events\<close>

lemma fetch_dynamic_events_reply:
  "fetch_dynamic_events py_repr read_csv match_id file_format
     \<lparr>pending = Response resp # rest, sent = snt, screen = scr\<rparr> =
   Some (if status_code resp = 200 then
           if file_format = ''csv'' then
             (case read_csv (FromUrl (response_url resp)) of
                Inl e \<Rightarrow> (Raised e,
                  \<lparr>pending = rest,
                   sent = snt @ [JStr (events_url py_repr match_id file_format)], screen = scr\<rparr>)
              | Inr df \<Rightarrow> (Returned (Table df),
                  \<lparr>pending = rest,
                   sent = snt @ [JStr (events_url py_repr match_id file_format)], screen = scr\<rparr>))
           else
             (case json_body resp of
                Inl m \<Rightarrow> (Raised (JSONDecodeError m),
                  \<lparr>pending = rest,
                   sent = snt @ [JStr (events_url py_repr match_id file_format)], screen = scr\<rparr>)
              | Inr v \<Rightarrow> (Returned (Value v),
                  \<lparr>pending = rest,
                   sent = snt @ [JStr (events_url py_repr match_id file_format)], screen = scr\<rparr>))
         else (Returned (Value JNull),
               \<lparr>pending = rest, sent = snt @ [JStr (events_url py_repr match_id file_format)],
                screen = scr @ [StError (http_error_message resp)]\<rparr>))"
  by (simp add: fetch_dynamic_events_def requests_get_def st_error_def st_show_def
        split: sum.splits)

lemma server_error_status [simp]: "status_code server_error = 500"
  by (simp add: server_error_def)

section \<open>Properties of the upload\<close>

text \<open>
  Claim C8. Parsing and showing an uploaded file leaves the cached reference table and
  the cached matches table as they were, sends no request and takes no reply; a later
  cached fetch still returns the cached values. Only the screen changes.
\<close>

theorem upload_section_frame:
  assumes "upload_section read_csv uploaded_file s = (r, s')"
  shows "editions_cache s' = editions_cache s \<and> matches_cache s' = matches_cache s \<and>
         pending (page s') = pending (page s) \<and> sent (page s') = sent (page s) \<and>
         (\<forall>v shown. editions_cache s = Some (v, shown) \<longrightarrow>
            (\<exists>s''. cached_fetch_competition_editions py_repr s' = Some (Returned v, s''))) \<and>
         (\<forall>v shown. matches_cache s = Some (v, shown) \<longrightarrow>
            (\<exists>s''. cached_fetch_all_matches s' = Some (Returned v, s'')))"
proof -
  have frame: "editions_cache s' = editions_cache s \<and> matches_cache s' = matches_cache s \<and>
         pending (page s') = pending (page s) \<and> sent (page s') = sent (page s)"
    using assms
    by (auto simp: upload_section_def st_show_def split: option.splits sum.splits)
  then show ?thesis
    by (auto simp: cached_fetch_competition_editions_def cached_fetch_all_matches_def)
qed

theorem upload_section_frame_witness:
  "upload_section csv_reader (Some events_csv) cached_session =
     (Returned (),
      cached_session\<lparr>page := \<lparr>pending = [], sent = [],
         screen = [StSubheader ''Uploaded Dynamic Events Data'', StDataframe events_table]\<rparr>\<rparr>)
   \<and> editions_cache (cached_session\<lparr>page := \<lparr>pending = [], sent = [],
         screen = [StSubheader ''Uploaded Dynamic Events Data'', StDataframe events_table]\<rparr>\<rparr>)
       = Some (Some (DataFrame []), [])
   \<and> matches_cache (cached_session\<lparr>page := \<lparr>pending = [], sent = [],
         screen = [StSubheader ''Uploaded Dynamic Events Data'', StDataframe events_table]\<rparr>\<rparr>)
       = Some (DataFrame [match_row 1], [])"
proof -
  have run: "upload_section csv_reader (Some events_csv) cached_session =
     (Returned (),
      cached_session\<lparr>page := \<lparr>pending = [], sent = [],
         screen = [StSubheader ''Uploaded Dynamic Events Data'', StDataframe events_table]\<rparr>\<rparr>)"
    by (simp add: upload_section_def csv_reader_def st_show_def cached_session_def)
  show ?thesis
    using run upload_section_frame [OF run, of "\<lambda>v. []"]
    by (simp add: cached_session_def)
qed

section \<open>Properties of the option labels\<close>

lemma digit_char_in: "n < 10 \<Longrightarrow> digit_char n \<in> set ''0123456789''"
  unfolding digit_char_def by (rule nth_mem) simp

lemma digit_char_inj: "n < 10 \<Longrightarrow> m < 10 \<Longrightarrow> digit_char n = digit_char m \<Longrightarrow> n = m"
proof -
  assume n: "n < 10" and m: "m < 10" and eq: "digit_char n = digit_char m"
  have d: "distinct ''0123456789''" by simp
  have "n < length ''0123456789''" "m < length ''0123456789''" using n m by simp_all
  with d eq show "n = m" unfolding digit_char_def by (simp only: nth_eq_iff_index_eq)
qed

lemma digits_of_chars: "set (digits_of n) \<subseteq> set ''0123456789''"
proof (induction n rule: digits_of.induct)
  case (1 n)
  show ?case
  proof (cases "n < 10")
    case True
    then show ?thesis using digit_char_in [of n] by (subst digits_of.simps) simp
  next
    case False
    have "n mod 10 < 10" by simp
    then have "digit_char (n mod 10) \<in> set ''0123456789''" by (rule digit_char_in)
    with False "1.IH" show ?thesis by (subst digits_of.simps) simp
  qed
qed

lemma digits_of_nonempty: "digits_of n \<noteq> []"
  by (subst digits_of.simps) simp

lemma digits_of_inj: "digits_of n = digits_of m \<Longrightarrow> n = m"
proof (induction n arbitrary: m rule: digits_of.induct)
  case (1 n)
  show ?case
  proof (cases "n < 10")
    case True
    then have n1: "digits_of n = [digit_char n]" by (subst digits_of.simps) simp
    show ?thesis
    proof (cases "m < 10")
      case m: True
      then have "digits_of m = [digit_char m]" by (subst digits_of.simps) simp
      with n1 "1.prems" True m show ?thesis by (simp add: digit_char_inj)
    next
      case False
      then have "digits_of m = digits_of (m div 10) @ [digit_char (m mod 10)]"
        by (subst digits_of.simps) simp
      with n1 "1.prems" digits_of_nonempty [of "m div 10"] show ?thesis by simp
    qed
  next
    case False
    then have n2: "digits_of n = digits_of (n div 10) @ [digit_char (n mod 10)]"
      by (subst digits_of.simps) simp
    show ?thesis
    proof (cases "m < 10")
      case True
      then have "digits_of m = [digit_char m]" by (subst digits_of.simps) simp
      with n2 "1.prems" digits_of_nonempty [of "n div 10"] show ?thesis by simp
    next
      case m: False
      then have "digits_of m = digits_of (m div 10) @ [digit_char (m mod 10)]"
        by (subst digits_of.simps) simp
      with n2 "1.prems" have a: "digits_of (n div 10) = digits_of (m div 10)"
        and b: "digit_char (n mod 10) = digit_char (m mod 10)" by simp_all
      from a have "n div 10 = m div 10" using "1.IH" [OF False] by simp
      moreover from b have "n mod 10 = m mod 10" by (simp add: digit_char_inj)
      ultimately show ?thesis by (metis div_mult_mod_eq)
    qed
  qed
qed

lemma str_int_no_paren: "CHR ''('' \<notin> set (str_int i)"
  using digits_of_chars [of "nat i"] digits_of_chars [of "nat (- i)"]
  by (auto simp: str_int_def)

lemma str_int_inj: "str_int i = str_int j \<Longrightarrow> i = j"
proof -
  assume eq: "str_int i = str_int j"
  have nominus: "\<And>n. hd (digits_of n) \<noteq> CHR ''-''"
  proof -
    fix n
    have "hd (digits_of n) \<in> set (digits_of n)" using digits_of_nonempty by simp
    with digits_of_chars [of n] show "hd (digits_of n) \<noteq> CHR ''-''" by auto
  qed
  show "i = j"
  proof (cases "i < 0")
    case True
    show ?thesis
    proof (cases "j < 0")
      case j: True
      with True eq have "digits_of (nat (- i)) = digits_of (nat (- j))"
        by (simp add: str_int_def)
      then have "nat (- i) = nat (- j)" by (rule digits_of_inj)
      with True j show ?thesis by simp
    next
      case False
      with True eq have "CHR ''-'' # digits_of (nat (- i)) = digits_of (nat j)"
        by (simp add: str_int_def)
      then have "hd (digits_of (nat j)) = CHR ''-''" by (metis list.sel(1))
      with nominus show ?thesis by blast
    qed
  next
    case False
    show ?thesis
    proof (cases "j < 0")
      case True
      with False eq have "digits_of (nat i) = CHR ''-'' # digits_of (nat (- j))"
        by (simp add: str_int_def)
      then have "hd (digits_of (nat i)) = CHR ''-''" by (metis list.sel(1))
      with nominus show ?thesis by blast
    next
      case j: False
      with False eq have "digits_of (nat i) = digits_of (nat j)" by (simp add: str_int_def)
      then have "nat i = nat j" by (rule digits_of_inj)
      with False j show ?thesis by simp
    qed
  qed
qed

lemma split_at_first:
  "x \<notin> set xs \<Longrightarrow> x \<notin> set xs' \<Longrightarrow> xs @ x # ys = xs' @ x # ys' \<Longrightarrow>
     xs = xs' \<and> ys = ys'"
proof (induction xs arbitrary: xs')
  case Nil
  then show ?case by (cases xs') auto
next
  case (Cons a xs)
  then show ?case by (cases xs') auto
qed

lemma option_label_inj:
  assumes "option_label py_repr (JStr n) (JInt i) = option_label py_repr (JStr m) (JInt j)"
  shows "n = m \<and> i = j"
proof -
  from assms have "n @ '' ('' @ str_int i @ '')'' = m @ '' ('' @ str_int j @ '')''"
    by (simp add: option_label_def)
  then have "rev (n @ '' ('' @ str_int i @ '')'') = rev (m @ '' ('' @ str_int j @ '')'')"
    by (rule arg_cong)
  moreover have "\<And>a b. rev (a @ '' ('' @ b @ '')'') =
                   (CHR '')'' # rev b) @ CHR ''('' # (CHR '' '' # rev a)"
    by simp
  ultimately have "(CHR '')'' # rev (str_int i)) @ CHR ''('' # (CHR '' '' # rev n) =
             (CHR '')'' # rev (str_int j)) @ CHR ''('' # (CHR '' '' # rev m)"
    by (simp only:)
  then have eq: "(CHR '')'' # rev (str_int i)) @ CHR ''('' # (CHR '' '' # rev n) =
             (CHR '')'' # rev (str_int j)) @ CHR ''('' # (CHR '' '' # rev m)" .
  have ni: "CHR ''('' \<notin> set (CHR '')'' # rev (str_int i))"
    and nj: "CHR ''('' \<notin> set (CHR '')'' # rev (str_int j))"
    using str_int_no_paren by simp_all
  have "CHR '')'' # rev (str_int i) = CHR '')'' # rev (str_int j) \<and>
        CHR '' '' # rev n = CHR '' '' # rev m"
    using split_at_first [OF ni nj eq] .
  then show ?thesis using str_int_inj by simp
qed

section \<open>Properties of the option dicts\<close>

lemma fold_update_distinct:
  "distinct (map fst d) \<Longrightarrow>
     distinct (map fst (fold (\<lambda>r d. AList.update (k r) (v r) d) rs d))"
  by (induction rs arbitrary: d) (simp_all add: distinct_update)

lemma fold_update_map_of:
  "map_of (fold (\<lambda>r d. AList.update (k r) (v r) d) rs d) =
     map_of (rev (map (\<lambda>r. (k r, v r)) rs) @ d)"
proof (induction rs arbitrary: d)
  case Nil
  then show ?case by simp
next
  case (Cons r rs)
  have "map_of (AList.update (k r) (v r) d) = map_of ((k r, v r) # d)"
    by (simp add: update_conv')
  then show ?case by (simp add: Cons.IH map_of_append)
qed

lemma fold_update_set:
  assumes "\<forall>r\<in>set rs. \<forall>r'\<in>set rs. k r = k r' \<longrightarrow> v r = v r'"
  shows "set (fold (\<lambda>r d. AList.update (k r) (v r) d) rs []) = (\<lambda>r. (k r, v r)) ` set rs"
proof -
  let ?R = "fold (\<lambda>r d. AList.update (k r) (v r) d) rs []"
  let ?kvs = "rev (map (\<lambda>r. (k r, v r)) rs)"
  have d: "distinct (map fst ?R)" by (rule fold_update_distinct) simp
  have m: "map_of ?R = map_of ?kvs" using fold_update_map_of [of k v rs "[]"] by simp
  have "(a, b) \<in> set ?R \<longleftrightarrow> (a, b) \<in> (\<lambda>r. (k r, v r)) ` set rs" for a b
  proof
    assume "(a, b) \<in> set ?R"
    then have "map_of ?kvs a = Some b" using d m by (metis map_of_eq_Some_iff)
    then have "(a, b) \<in> set ?kvs" by (rule map_of_SomeD)
    then show "(a, b) \<in> (\<lambda>r. (k r, v r)) ` set rs" by auto
  next
    assume ab: "(a, b) \<in> (\<lambda>r. (k r, v r)) ` set rs"
    then obtain r where r: "r \<in> set rs" "a = k r" "b = v r" by auto
    from ab have "a \<in> fst ` set ?kvs" by force
    then obtain b' where b': "map_of ?kvs a = Some b'"
      by (metis map_of_eq_None_iff not_Some_eq)
    then have "(a, b') \<in> set ?kvs" by (rule map_of_SomeD)
    then obtain r' where r': "r' \<in> set rs" "a = k r'" "b' = v r'" by auto
    with r assms have "b' = b" by metis
    with b' have "map_of ?R a = Some b" using m by simp
    then show "(a, b) \<in> set ?R" by (rule map_of_SomeD)
  qed
  then show ?thesis by auto
qed

lemma option_of_inj: "inj (option_of py_repr)"
proof (rule injI)
  fix p q :: "string \<times> int"
  assume "option_of py_repr p = option_of py_repr q"
  then have "fst (option_of py_repr p) = fst (option_of py_repr q)" by simp
  then have "option_label py_repr (JStr (fst p)) (JInt (snd p)) =
             option_label py_repr (JStr (fst q)) (JInt (snd q))"
    by (simp only: option_of_def fst_conv)
  then have "fst p = fst q \<and> snd p = snd q" by (rule option_label_inj)
  then show "p = q" by (simp add: prod_eq_iff)
qed

lemma option_of_functional:
  "fst (option_of py_repr p) = fst (option_of py_repr q) \<Longrightarrow>
     snd (option_of py_repr p) = snd (option_of py_repr q)"
  using option_label_inj [of py_repr "fst p" "snd p" "fst q" "snd q"]
  by (simp add: option_of_def)

lemma options_of_set:
  "set (fold (\<lambda>r d. AList.update (fst (option_of py_repr (g r))) (snd (option_of py_repr (g r))) d)
          rs []) = option_of py_repr ` g ` set rs"
proof -
  have "\<forall>r\<in>set rs. \<forall>r'\<in>set rs.
          fst (option_of py_repr (g r)) = fst (option_of py_repr (g r')) \<longrightarrow>
          snd (option_of py_repr (g r)) = snd (option_of py_repr (g r'))"
    using option_of_functional by blast
  from fold_update_set [OF this] show ?thesis by (auto simp: image_iff)
qed

lemma options_of_length:
  assumes "distinct (map fst opts)" "set opts = option_of py_repr ` S"
  shows "length opts = card S"
proof -
  have "distinct opts" using assms(1) by (rule distinct_map [THEN iffD1, THEN conjunct1])
  then have "length opts = card (set opts)" by (simp add: distinct_card)
  also have "\<dots> = card S"
    unfolding assms(2) by (rule card_image) (rule inj_on_subset [OF option_of_inj], simp)
  finally show ?thesis .
qed

lemma row_competition_cells:
  "subscript (CompetitionSeasonRow r) ''competition_name'' = Inr (JStr (fst (competition_of r)))"
  "subscript (CompetitionSeasonRow r) ''competition_id'' = Inr (JInt (snd (competition_of r)))"
  by (cases r; simp add: CompetitionSeasonRow_def competition_of_def)+

lemma row_season_cells:
  "subscript (CompetitionSeasonRow r) ''season_name'' = Inr (JStr (fst (season_of r)))"
  "subscript (CompetitionSeasonRow r) ''season_id'' = Inr (JInt (snd (season_of r)))"
  by (cases r; simp add: CompetitionSeasonRow_def season_of_def)+

lemma comp_options_fold:
  "options_by py_repr ''competition_name'' ''competition_id'' (map CompetitionSeasonRow rs) d =
     Inr (fold (\<lambda>r d. AList.update (fst (option_of py_repr (competition_of r)))
                         (snd (option_of py_repr (competition_of r))) d) rs d)"
  by (induction rs arbitrary: d)
     (simp_all add: row_competition_cells option_of_def dict_set_def)

lemma season_options_fold:
  "options_by py_repr ''season_name'' ''season_id'' (map CompetitionSeasonRow rs) d =
     Inr (fold (\<lambda>r d. AList.update (fst (option_of py_repr (season_of r)))
                         (snd (option_of py_repr (season_of r))) d) rs d)"
  by (induction rs arbitrary: d)
     (simp_all add: row_season_cells option_of_def dict_set_def)

text \<open>
  Claim C9. For a reference table whose rows follow the data model (integer ids, string
  names), the dict of line 93 holds no key twice and holds exactly one entry, label and id,
  for each distinct (competition_name, competition_id) pair of the table, however many
  rows (seasons) the competition has: its length is the number of distinct pairs.
\<close>

theorem comp_options_one_per_competition:
  "\<exists>opts. comp_options py_repr (reference_table rs) = Inr opts \<and>
          distinct (map fst opts) \<and>
          set opts = option_of py_repr ` competition_of ` set rs \<and>
          length opts = card (competition_of ` set rs)"
proof -
  let ?opts = "fold (\<lambda>r d. AList.update (fst (option_of py_repr (competition_of r)))
                         (snd (option_of py_repr (competition_of r))) d) rs []"
  have 1: "comp_options py_repr (reference_table rs) = Inr ?opts"
    by (simp add: comp_options_def reference_table_def comp_options_fold)
  have 2: "distinct (map fst ?opts)" by (rule fold_update_distinct) simp
  have 3: "set ?opts = option_of py_repr ` competition_of ` set rs" by (rule options_of_set)
  have 4: "length ?opts = card (competition_of ` set rs)" by (rule options_of_length [OF 2 3])
  from 1 2 3 4 show ?thesis by blast
qed

theorem comp_options_one_per_competition_witness:
  "\<exists>opts. comp_options (\<lambda>v. []) (reference_table reference_rows) = Inr opts \<and>
          distinct (map fst opts) \<and>
          set opts = {option_of (\<lambda>v. []) (''Premier League'', 5),
                      option_of (\<lambda>v. []) (''La Liga'', 7)} \<and>
          length opts = 2"
proof -
  have "competition_of ` set reference_rows = {(''Premier League'', 5), (''La Liga'', 7)}"
    by (auto simp: reference_rows_def competition_of_def)
  then show ?thesis
    using comp_options_one_per_competition [of "\<lambda>v. []" reference_rows]
    by (simp add: numeral_2_eq_2)
qed

lemma filtered_reference_table:
  assumes "rs \<noteq> []"
  shows "filtered_seasons (JInt c) (reference_table rs) =
         Inr (reference_table (filter (\<lambda>r. fst r = c) rs))"
proof -
  have col: "has_column ''competition_id'' (reference_table rs)"
    using assms
    by (cases rs) (auto simp: has_column_def reference_table_def CompetitionSeasonRow_def)
  have cellc: "\<And>r. cell ''competition_id'' (CompetitionSeasonRow r) = JInt (fst r)"
    by (auto simp: cell_def dict_get_def CompetitionSeasonRow_def split: prod.splits)
  show ?thesis
    using col by (simp add: filtered_seasons_def reference_table_def filter_map comp_def cellc)
qed

text \<open>
  Claim C6. Let the rows of the chosen competition hold exactly two distinct seasons
  \<open>s1\<close> and \<open>s2\<close> (name and id). Then the filter of line 97 and the dict of line 98
  raise nothing, and the season options are exactly the two entries of \<open>s1\<close> and \<open>s2\<close>,
  which differ, with no key twice. The derivation is a function of the filtered table
  alone (it reads and changes no state), so computing it again on the same table gives
  the same dict.
\<close>

theorem season_options_two_seasons:
  assumes "season_of ` set (filter (\<lambda>r. fst r = c) rs) = {s1, s2}" and "s1 \<noteq> s2"
  shows "\<exists>flt opts. filtered_seasons (JInt c) (reference_table rs) = Inr flt \<and>
           season_options py_repr flt = Inr opts \<and>
           distinct (map fst opts) \<and> length opts = 2 \<and>
           set opts = {option_of py_repr s1, option_of py_repr s2} \<and>
           option_of py_repr s1 \<noteq> option_of py_repr s2"
proof -
  let ?frs = "filter (\<lambda>r. fst r = c) rs"
  let ?opts = "fold (\<lambda>r d. AList.update (fst (option_of py_repr (season_of r)))
                         (snd (option_of py_repr (season_of r))) d) ?frs []"
  from assms(1) have "rs \<noteq> []" by auto
  then have 0: "filtered_seasons (JInt c) (reference_table rs) = Inr (reference_table ?frs)"
    by (rule filtered_reference_table)
  have 1: "season_options py_repr (reference_table ?frs) = Inr ?opts"
    by (simp add: season_options_def reference_table_def season_options_fold)
  have 2: "distinct (map fst ?opts)" by (rule fold_update_distinct) simp
  have 3: "set ?opts = option_of py_repr ` season_of ` set ?frs" by (rule options_of_set)
  have 4: "length ?opts = card (season_of ` set ?frs)" by (rule options_of_length [OF 2 3])
  have 5: "length ?opts = 2" using 4 assms by simp
  have 6: "set ?opts = {option_of py_repr s1, option_of py_repr s2}" using 3 assms(1) by simp
  have 7: "option_of py_repr s1 \<noteq> option_of py_repr s2"
    using assms(2) option_of_inj [of py_repr] by (auto dest: injD)
  from 0 1 2 5 6 7 show ?thesis by blast
qed

theorem season_options_two_seasons_witness:
  "season_of ` set (filter (\<lambda>r. fst r = 5) reference_rows) =
     {(''2023/2024'', 10), (''2024/2025'', 11)}
   \<and> (''2023/2024'', 10 :: int) \<noteq> (''2024/2025'', 11)
   \<and> (\<exists>flt opts. filtered_seasons (JInt 5) (reference_table reference_rows) = Inr flt \<and>
           season_options (\<lambda>v. []) flt = Inr opts \<and>
           distinct (map fst opts) \<and> length opts = 2 \<and>
           set opts = {option_of (\<lambda>v. []) (''2023/2024'', 10), option_of (\<lambda>v. []) (''2024/2025'', 11)} \<and>
           option_of (\<lambda>v. []) (''2023/2024'', 10) \<noteq> option_of (\<lambda>v. []) (''2024/2025'', 11))"
proof -
  have a: "season_of ` set (filter (\<lambda>r. fst r = 5) reference_rows) =
     {(''2023/2024'', 10), (''2024/2025'', 11)}"
    by (simp add: reference_rows_def season_of_def)
  have b: "(''2023/2024'', 10 :: int) \<noteq> (''2024/2025'', 11)" by simp
  show ?thesis
    using a b season_options_two_seasons [OF a b, of "\<lambda>v. []"] by blast
qed

section \<open>The pages of the matches collection\<close>

lemma is_http_url_nonempty: "is_http_url s \<Longrightarrow> s \<noteq> []"
  by (auto simp: is_http_url_def)

lemma next_documented_truthy:
  "next_documented p \<Longrightarrow> truthy (page_next p) \<longleftrightarrow> \<not> next_missing p"
  by (auto simp: next_documented_def next_missing_def page_next_def is_http_url_nonempty
        split: option.splits json.splits)

text \<open>
  Claim C2. Let every page of \<open>pages\<close> be a 200 page whose \<^verbatim>\<open>next\<close> is as the endpoint
  documents it (absent, null or a URL). The call reads exactly these pages and returns
  exactly when \<open>pages\<close> is not empty, the \<^verbatim>\<open>next\<close> of every page but the last is present
  and not null, and the \<^verbatim>\<open>next\<close> of the last page is null or absent: only that ends the
  loop. The table then holds the \<^verbatim>\<open>results\<close> arrays of all pages in order, so its length
  is the sum of their lengths; each request after the first went to the \<^verbatim>\<open>next\<close> of the
  page before, and nothing is shown.
\<close>

theorem fetch_all_matches_documented_pages:
  assumes "list_all page_200 pages" and "list_all next_documented pages"
  shows "fetch_all_matches \<lparr>pending = map Response pages @ rest, sent = snt, screen = scr\<rparr>
           = Some (Returned df, \<lparr>pending = rest, sent = snt', screen = scr'\<rparr>)
         \<longleftrightarrow>
         pages \<noteq> [] \<and>
         list_all (\<lambda>p. \<not> next_missing p) (butlast pages) \<and>
         next_missing (last pages) \<and>
         df = DataFrame (concat (map results_array pages)) \<and>
         length (rows df) = sum_list (map (\<lambda>p. length (results_array p)) pages) \<and>
         snt' = snt @ JStr matches_url # map page_next (butlast pages) \<and>
         scr' = scr"
proof -
  have doc: "\<And>p. p \<in> set pages \<Longrightarrow> truthy (page_next p) \<longleftrightarrow> \<not> next_missing p"
    using assms(2) by (simp add: list_all_iff next_documented_truthy)
  have bl: "list_all (\<lambda>p. truthy (page_next p)) (butlast pages) \<longleftrightarrow>
            list_all (\<lambda>p. \<not> next_missing p) (butlast pages)"
    using doc by (auto simp: list_all_iff dest: in_set_butlastD)
  have la: "pages \<noteq> [] \<Longrightarrow> truthy (page_next (last pages)) \<longleftrightarrow> \<not> next_missing (last pages)"
    using doc by simp
  show ?thesis
    unfolding fetch_all_matches_pages [OF assms(1)] using bl la by auto
qed

lemma matches_page_next_field [simp]: "next_field (matches_page items nxt) = Some nxt"
  by (simp add: next_field_def matches_page_def ok_response_def)

lemma page_2_url_documented [simp]: "next_documented (matches_page items page_2_url)"
  by (simp add: next_documented_def page_2_url_def is_http_url_def BASE_URL_def)

lemma null_next_documented [simp]: "next_documented (matches_page items JNull)"
  by (simp add: next_documented_def)

theorem fetch_all_matches_documented_pages_witness:
  "list_all page_200
     [matches_page [match_row 1, match_row 2] page_2_url, matches_page [match_row 3] JNull]
   \<and> list_all next_documented
     [matches_page [match_row 1, match_row 2] page_2_url, matches_page [match_row 3] JNull]
   \<and> \<not> next_missing (matches_page [match_row 1, match_row 2] page_2_url)
   \<and> next_missing (matches_page [match_row 3] JNull)
   \<and> fetch_all_matches
        \<lparr>pending = [Response (matches_page [match_row 1, match_row 2] page_2_url),
                    Response (matches_page [match_row 3] JNull)],
         sent = [], screen = []\<rparr> =
      Some (Returned (DataFrame [match_row 1, match_row 2, match_row 3]),
            \<lparr>pending = [], sent = [JStr matches_url, page_2_url], screen = []\<rparr>)
   \<and> length (rows (DataFrame [match_row 1, match_row 2, match_row 3])) = 2 + 1"
proof -
  have a: "list_all page_200
             [matches_page [match_row 1, match_row 2] page_2_url, matches_page [match_row 3] JNull]"
    by simp
  have b: "list_all next_documented
             [matches_page [match_row 1, match_row 2] page_2_url, matches_page [match_row 3] JNull]"
    by simp
  have c: "\<not> next_missing (matches_page [match_row 1, match_row 2] page_2_url)"
    by (simp add: next_missing_def page_2_url_def)
  have d: "next_missing (matches_page [match_row 3] JNull)"
    by (simp add: next_missing_def)
  show ?thesis
    using a b c d fetch_all_matches_documented_pages [OF a b, of "[]" "[]" "[]"
        "DataFrame [match_row 1, match_row 2, match_row 3]" "[JStr matches_url, page_2_url]" "[]"]
    by simp
qed

section \<open>The rows of the reference table\<close>

lemma extract_row_edition_row:
  "has_edition_fields item \<Longrightarrow> extract_row py_repr item = Inr (edition_row py_repr item)"
  by (simp add: extract_row_fields edition_row_def)

lemma edition_row_cells:
  "cell ''competition_id'' (edition_row py_repr item) = cell ''id'' (cell ''competition'' item)"
  "cell ''competition_name'' (edition_row py_repr item) = cell ''name'' (cell ''competition'' item)"
  "cell ''season_id'' (edition_row py_repr item) = cell ''id'' (cell ''season'' item)"
  "cell ''season_name'' (edition_row py_repr item) =
     JStr (py_str py_repr (cell ''start_year'' (cell ''season'' item)) @ ''/'' @
           py_str py_repr (cell ''end_year'' (cell ''season'' item)))"
  by (simp_all add: edition_row_def cell_def dict_get_def)

lemma edition_row_four_fields: "four_fields (edition_row py_repr item)"
  by (simp add: edition_row_def four_fields_def row_fields_def)

lemma extracted_data_edition_rows:
  "list_all has_edition_fields items \<Longrightarrow>
     extracted_data py_repr items = Inr (map (edition_row py_repr) items)"
  by (induction items) (simp_all add: extract_row_edition_row)

text \<open>
  Claim C4. For a list of records that each hold the five nested fields, the comprehension
  of lines 30 to 38 raises nothing and yields one row per record, in order. Each row has
  exactly the four fields of a \<^verbatim>\<open>CompetitionSeasonRow\<close>: its \<^verbatim>\<open>competition_id\<close>,
  \<^verbatim>\<open>competition_name\<close> and \<^verbatim>\<open>season_id\<close> are the record's \<^verbatim>\<open>competition.id\<close>,
  \<^verbatim>\<open>competition.name\<close> and \<^verbatim>\<open>season.id\<close>, and its \<^verbatim>\<open>season_name\<close> is the text of the
  record's \<^verbatim>\<open>season.start_year\<close>, a slash, and the text of its \<^verbatim>\<open>season.end_year\<close>. The
  instance after it is the spec's example: 2023 and 2024 give \<^verbatim>\<open>2023/2024\<close>.
\<close>

theorem extracted_data_rows:
  assumes "list_all has_edition_fields items"
  shows "\<exists>extracted.
           extracted_data py_repr items = Inr extracted \<and>
           length extracted = length items \<and>
           list_all four_fields extracted \<and>
           map (cell ''competition_id'') extracted =
             map (\<lambda>item. cell ''id'' (cell ''competition'' item)) items \<and>
           map (cell ''competition_name'') extracted =
             map (\<lambda>item. cell ''name'' (cell ''competition'' item)) items \<and>
           map (cell ''season_id'') extracted =
             map (\<lambda>item. cell ''id'' (cell ''season'' item)) items \<and>
           map (cell ''season_name'') extracted =
             map (\<lambda>item. JStr (py_str py_repr (cell ''start_year'' (cell ''season'' item)) @ ''/'' @
                                py_str py_repr (cell ''end_year'' (cell ''season'' item)))) items"
proof -
  have "extracted_data py_repr items = Inr (map (edition_row py_repr) items)"
    using assms by (rule extracted_data_edition_rows)
  moreover have "list_all four_fields (map (edition_row py_repr) items)"
    by (simp add: list_all_iff edition_row_four_fields)
  ultimately show ?thesis
    by (simp add: edition_row_cells comp_def)
qed

lemma edition_item_cells [simp]:
  "cell ''id'' (cell ''competition'' (edition_item cid cname sid sy ey)) = JInt cid"
  "cell ''name'' (cell ''competition'' (edition_item cid cname sid sy ey)) = JStr cname"
  "cell ''id'' (cell ''season'' (edition_item cid cname sid sy ey)) = JInt sid"
  by (simp_all add: edition_item_def cell_def dict_get_def)

theorem extracted_data_rows_witness:
  "list_all has_edition_fields [edition_item 5 ''Premier League'' 10 2023 2024]
   \<and> (\<exists>extracted.
         extracted_data (\<lambda>v. []) [edition_item 5 ''Premier League'' 10 2023 2024] = Inr extracted \<and>
         length extracted = 1 \<and>
         list_all four_fields extracted \<and>
         map (cell ''competition_id'') extracted = [JInt 5] \<and>
         map (cell ''competition_name'') extracted = [JStr ''Premier League''] \<and>
         map (cell ''season_id'') extracted = [JInt 10] \<and>
         map (cell ''season_name'') extracted = [JStr ''2023/2024''])"
proof -
  have a: "list_all has_edition_fields [edition_item 5 ''Premier League'' 10 2023 2024]" by simp
  show ?thesis
    using a extracted_data_rows [OF a, of "\<lambda>v. []"]
    by (simp add: str_int_2023 str_int_2024)
qed

lemma subscript_Inr:
  "subscript v k = Inr x \<Longrightarrow> has_keys [k] v \<and> x = cell k v"
  by (cases v)
     (auto simp: has_keys_def cell_def dict_get_def split: option.splits
        dest: map_of_SomeD intro: rev_image_eqI)

lemma subscript_Inl: "subscript v k = Inl e \<Longrightarrow> \<not> is_RequestException e"
  by (cases v) (auto split: option.splits)

lemma has_keys_split:
  "has_keys [a, b] v \<longleftrightarrow> has_keys [a] v \<and> has_keys [b] v"
  "has_keys [a, b, c] v \<longleftrightarrow> has_keys [a] v \<and> has_keys [b] v \<and> has_keys [c] v"
  by (cases v; auto simp: has_keys_def)+

lemma nested_Inr:
  "nested item a b = Inr x \<Longrightarrow>
     has_keys [a] item \<and> has_keys [b] (cell a item) \<and> x = cell b (cell a item)"
  by (auto simp: nested_def split: sum.splits dest!: subscript_Inr)

lemma nested_Inl: "nested item a b = Inl e \<Longrightarrow> \<not> is_RequestException e"
  by (auto simp: nested_def split: sum.splits dest: subscript_Inl)

lemma extract_row_Inr:
  assumes "extract_row py_repr item = Inr row"
  shows "has_edition_fields item \<and> row = edition_row py_repr item"
proof -
  from assms obtain cid cname sid sy ey where
    1: "nested item ''competition'' ''id'' = Inr cid" and
    2: "nested item ''competition'' ''name'' = Inr cname" and
    3: "nested item ''season'' ''id'' = Inr sid" and
    4: "nested item ''season'' ''start_year'' = Inr sy" and
    5: "nested item ''season'' ''end_year'' = Inr ey"
    by (auto simp: extract_row_def split: sum.splits)
  have hf: "has_edition_fields item"
    using nested_Inr [OF 1] nested_Inr [OF 2] nested_Inr [OF 3] nested_Inr [OF 4] nested_Inr [OF 5]
    by (simp add: has_edition_fields_def has_keys_split)
  then have "extract_row py_repr item = Inr (edition_row py_repr item)"
    by (rule extract_row_edition_row)
  with assms have "Inr row = (Inr (edition_row py_repr item) :: exn + json)" by (simp only:)
  then have "row = edition_row py_repr item" by (simp only: sum.inject)
  with hf show ?thesis by (simp only: simp_thms)
qed

lemma extract_row_Inl: "extract_row py_repr item = Inl e \<Longrightarrow> \<not> is_RequestException e"
  by (auto simp: extract_row_def split: sum.splits dest: nested_Inl)

lemma extracted_data_Inr:
  "extracted_data py_repr items = Inr extracted \<Longrightarrow>
     list_all has_edition_fields items \<and> extracted = map (edition_row py_repr) items"
proof (induction items arbitrary: extracted)
  case Nil
  then show ?case by simp
next
  case (Cons item items)
  then show ?case by (auto split: sum.splits dest: extract_row_Inr)
qed

lemma extracted_data_Inl:
  "extracted_data py_repr items = Inl e \<Longrightarrow> \<not> is_RequestException e"
proof (induction items)
  case Nil
  then show ?case by simp
next
  case (Cons item items)
  then show ?case by (auto split: sum.splits dest: extract_row_Inl)
qed

lemma extracted_data_malformed:
  "\<not> list_all has_edition_fields items \<Longrightarrow>
     \<exists>e. extracted_data py_repr items = Inl e \<and> \<not> is_RequestException e"
  by (cases "extracted_data py_repr items")
     (auto dest: extracted_data_Inl extracted_data_Inr)

lemma editions_body_Some:
  assumes "editions_body py_repr resp w = (Returned (Some df), w')"
  shows "\<exists>data rs items. json_body resp = Inr data \<and> subscript data ''results'' = Inr rs \<and>
           py_iter rs = Inr items \<and> list_all has_edition_fields items \<and>
           df = DataFrame (map (edition_row py_repr) items)"
  using assms
  by (auto simp: editions_body_def split: sum.splits if_splits dest: extracted_data_Inr)

lemma editions_body_malformed:
  assumes "raise_for_status resp = Inr ()" "json_body resp = Inr data"
    "py_in ''results'' data = Inr True" "subscript data ''results'' = Inr rs"
    "py_iter rs = Inr items" "\<not> list_all has_edition_fields items"
  shows "\<exists>e. editions_body py_repr resp w = (Raised e, w) \<and> \<not> is_RequestException e"
  using assms extracted_data_malformed [OF assms(6), of py_repr]
  by (auto simp: editions_body_def)

text \<open>
  Claim C10. With an outcome for its one request, \<^verbatim>\<open>fetch_competition_editions\<close> ends.
  When it returns a value, the value is \<^verbatim>\<open>None\<close>, or it is a table built from the
  \<^verbatim>\<open>results\<close> of the response in which every record holds all five nested fields, and
  the rows of the table are the rows of these records, each with exactly the four fields
  \<^verbatim>\<open>competition_id\<close>, \<^verbatim>\<open>competition_name\<close>, \<^verbatim>\<open>season_id\<close> and \<^verbatim>\<open>season_name\<close>. When a
  record of the \<^verbatim>\<open>results\<close> lacks a nested field, the call returns nothing: it raises
  an exception that its handler does not catch. So no partly filled row is returned.
\<close>

theorem fetch_competition_editions_none_or_full_rows:
  "\<exists>r w'. fetch_competition_editions py_repr \<lparr>pending = rp # rest, sent = snt, screen = scr\<rparr>
            = Some (r, w') \<and>
     (\<forall>v. r = Returned v \<longrightarrow>
        v = None \<or>
        (\<exists>resp data rs items.
           rp = Response resp \<and> json_body resp = Inr data \<and>
           subscript data ''results'' = Inr rs \<and> py_iter rs = Inr items \<and>
           list_all has_edition_fields items \<and>
           v = Some (DataFrame (map (edition_row py_repr) items)) \<and>
           list_all four_fields (map (edition_row py_repr) items))) \<and>
     (\<forall>resp data rs items.
        rp = Response resp \<and> raise_for_status resp = Inr () \<and> json_body resp = Inr data \<and>
        py_in ''results'' data = Inr True \<and> subscript data ''results'' = Inr rs \<and>
        py_iter rs = Inr items \<and> \<not> list_all has_edition_fields items \<longrightarrow>
        (\<exists>e. r = Raised e \<and> \<not> is_RequestException e))"
proof -
  let ?w1 = "\<lparr>pending = rest, sent = snt @ [JStr editions_url], screen = scr\<rparr>"
  have get: "requests_get (JStr editions_url) \<lparr>pending = rp # rest, sent = snt, screen = scr\<rparr>
               = Some (rp, ?w1)"
    by (simp add: requests_get_def)
  have ff: "\<And>items. list_all four_fields (map (edition_row py_repr) items)"
    by (simp add: list_all_iff edition_row_four_fields)
  show ?thesis
  proof (cases rp)
    case (Failed e)
    then show ?thesis
      using get by (auto simp: fetch_competition_editions_def)
  next
    case (Response resp)
    obtain r0 w0 where body: "editions_body py_repr resp ?w1 = (r0, w0)"
      by (cases "editions_body py_repr resp ?w1")
    show ?thesis
    proof (cases r0)
      case (Raised e)
      show ?thesis
      proof (cases "is_RequestException e")
        case True
        have "\<And>data rs items. raise_for_status resp = Inr () \<Longrightarrow> json_body resp = Inr data \<Longrightarrow>
                py_in ''results'' data = Inr True \<Longrightarrow> subscript data ''results'' = Inr rs \<Longrightarrow>
                py_iter rs = Inr items \<Longrightarrow> \<not> list_all has_edition_fields items \<Longrightarrow> False"
          using editions_body_malformed [of resp _ _ _ py_repr ?w1] body Raised True by auto
        then show ?thesis
          using get Response body Raised True
          by (auto simp: fetch_competition_editions_def)
      next
        case False
        then show ?thesis
          using get Response body Raised by (auto simp: fetch_competition_editions_def)
      qed
    next
      case (Returned v0)
      have nomal: "\<And>data rs items. raise_for_status resp = Inr () \<Longrightarrow> json_body resp = Inr data \<Longrightarrow>
                py_in ''results'' data = Inr True \<Longrightarrow> subscript data ''results'' = Inr rs \<Longrightarrow>
                py_iter rs = Inr items \<Longrightarrow> \<not> list_all has_edition_fields items \<Longrightarrow> False"
        using editions_body_malformed [of resp _ _ _ py_repr ?w1] body Returned by auto
      show ?thesis
      proof (cases v0)
        case None
        then show ?thesis
          using get Response body Returned nomal
          by (auto simp: fetch_competition_editions_def)
      next
        case (Some df)
        then obtain data rs items where
          "json_body resp = Inr data" "subscript data ''results'' = Inr rs"
          "py_iter rs = Inr items" "list_all has_edition_fields items"
          "df = DataFrame (map (edition_row py_repr) items)"
          using body Returned editions_body_Some by blast
        then show ?thesis
          using get Response body Returned Some nomal ff
          by (auto simp: fetch_competition_editions_def)
      qed
    qed
  qed
qed


theorem fetch_competition_editions_none_or_full_rows_witness:
  "fetch_competition_editions (\<lambda>v. [])
     \<lparr>pending = [Response (ok_response (JObj [(''results'',
         JList [edition_item 5 ''Premier League'' 10 2023 2024])]))], sent = [], screen = []\<rparr>
     = Some (Returned (Some (DataFrame
               [CompetitionSeasonRow (5, ''Premier League'', 10, ''2023/2024'')])),
             \<lparr>pending = [], sent = [JStr editions_url], screen = []\<rparr>)
   \<and> list_all four_fields [CompetitionSeasonRow (5, ''Premier League'', 10, ''2023/2024'')]
   \<and> \<not> list_all has_edition_fields [JObj [(''competition'', JObj [(''id'', JInt 1)])]]
   \<and> fetch_competition_editions (\<lambda>v. [])
     \<lparr>pending = [Response (ok_response (JObj [(''results'',
         JList [JObj [(''competition'', JObj [(''id'', JInt 1)])]])]))], sent = [], screen = []\<rparr>
     = Some (Raised (KeyError ''name''),
             \<lparr>pending = [], sent = [JStr editions_url], screen = []\<rparr>)"
proof -
  have good: "fetch_competition_editions (\<lambda>v. [])
     \<lparr>pending = [Response (ok_response (JObj [(''results'',
         JList [edition_item 5 ''Premier League'' 10 2023 2024])]))], sent = [], screen = []\<rparr>
     = Some (Returned (Some (DataFrame
               [CompetitionSeasonRow (5, ''Premier League'', 10, ''2023/2024'')])),
             \<lparr>pending = [], sent = [JStr editions_url], screen = []\<rparr>)"
    by (simp add: fetch_competition_editions_def requests_get_def editions_body_def
          raise_for_status_200 edition_item_row CompetitionSeasonRow_def str_int_2023 str_int_2024)
  have ff: "list_all four_fields [CompetitionSeasonRow (5, ''Premier League'', 10, ''2023/2024'')]"
    by (simp add: four_fields_def row_fields_def CompetitionSeasonRow_def)
  have mal: "\<not> list_all has_edition_fields [JObj [(''competition'', JObj [(''id'', JInt 1)])]]"
    by (simp add: has_edition_fields_def has_keys_def)
  have bad: "fetch_competition_editions (\<lambda>v. [])
     \<lparr>pending = [Response (ok_response (JObj [(''results'',
         JList [JObj [(''competition'', JObj [(''id'', JInt 1)])]])]))], sent = [], screen = []\<rparr>
     = Some (Raised (KeyError ''name''),
             \<lparr>pending = [], sent = [JStr editions_url], screen = []\<rparr>)"
    by (simp add: fetch_competition_editions_def requests_get_def editions_body_def
          raise_for_status_200 extract_row_def nested_def)
  show ?thesis
    using good ff mal bad
      fetch_competition_editions_none_or_full_rows [of "\<lambda>v. []"
        "Response (ok_response (JObj [(''results'',
           JList [JObj [(''competition'', JObj [(''id'', JInt 1)])]])]))" "[]" "[]" "[]"]
    by simp
qed

section \<open>The outcomes of fetch_dynamic_events\<close>

text \<open>
  Claim C7. Let the request of \<^verbatim>\<open>fetch_dynamic_events\<close> be answered by a response. With a
  status other than 200 the call shows the cross mark, \<^verbatim>\<open>Error\<close>, the status code, a
  colon and the body of the response, and returns \<^verbatim>\<open>None\<close>. With status 200 and a format
  other than \<^verbatim>\<open>csv\<close> it returns the decoded JSON body as it is; with status 200 and the
  format \<^verbatim>\<open>csv\<close> it returns the table that \<^verbatim>\<open>pd.read_csv\<close> reads from the response's
  URL. The error outcome (\<^verbatim>\<open>None\<close> together with that message) occurs exactly when the
  status is not 200. (A 200 response with the JSON body \<^verbatim>\<open>null\<close> also returns \<^verbatim>\<open>None\<close>,
  but without a message.)
\<close>

theorem fetch_dynamic_events_results:
  "(status_code resp \<noteq> 200 \<longrightarrow>
      fetch_dynamic_events py_repr read_csv match_id file_format
        \<lparr>pending = Response resp # rest, sent = snt, screen = scr\<rparr> =
      Some (Returned (Value JNull),
            \<lparr>pending = rest, sent = snt @ [JStr (events_url py_repr match_id file_format)],
             screen = scr @ [StError ([CHR 0xE2, CHR 0x9D, CHR 0x8C] @ '' Error '' @
                                      str_int (status_code resp) @ '': '' @
                                      response_text resp)]\<rparr>))
   \<and> (status_code resp = 200 \<and> file_format \<noteq> ''csv'' \<and> json_body resp = Inr v \<longrightarrow>
      fetch_dynamic_events py_repr read_csv match_id file_format
        \<lparr>pending = Response resp # rest, sent = snt, screen = scr\<rparr> =
      Some (Returned (Value v),
            \<lparr>pending = rest, sent = snt @ [JStr (events_url py_repr match_id file_format)],
             screen = scr\<rparr>))
   \<and> (status_code resp = 200 \<and> file_format = ''csv'' \<and>
        read_csv (FromUrl (response_url resp)) = Inr df \<longrightarrow>
      fetch_dynamic_events py_repr read_csv match_id file_format
        \<lparr>pending = Response resp # rest, sent = snt, screen = scr\<rparr> =
      Some (Returned (Table df),
            \<lparr>pending = rest, sent = snt @ [JStr (events_url py_repr match_id file_format)],
             screen = scr\<rparr>))
   \<and> ((\<exists>w'. fetch_dynamic_events py_repr read_csv match_id file_format
               \<lparr>pending = Response resp # rest, sent = snt, screen = scr\<rparr> =
             Some (Returned (Value JNull), w') \<and>
             screen w' = scr @ [StError ([CHR 0xE2, CHR 0x9D, CHR 0x8C] @ '' Error '' @
                                          str_int (status_code resp) @ '': '' @
                                          response_text resp)])
        \<longleftrightarrow> status_code resp \<noteq> 200)"
  unfolding fetch_dynamic_events_reply
  by (auto simp: http_error_message_def cross_mark_def split: sum.splits)

theorem fetch_dynamic_events_results_witness:
  "status_code server_error \<noteq> 200
   \<and> fetch_dynamic_events (\<lambda>v. []) csv_reader (JInt 7) ''csv''
        \<lparr>pending = [Response server_error], sent = [], screen = []\<rparr> =
      Some (Returned (Value JNull),
            \<lparr>pending = [], sent = [JStr (events_url (\<lambda>v. []) (JInt 7) ''csv'')],
             screen = [StError ([CHR 0xE2, CHR 0x9D, CHR 0x8C] @ '' Error 500: oops'')]\<rparr>)
   \<and> status_code (ok_response events_json) = 200 \<and> ''json'' \<noteq> ''csv''
   \<and> json_body (ok_response events_json) = Inr events_json
   \<and> fetch_dynamic_events (\<lambda>v. []) csv_reader (JInt 7) ''json''
        \<lparr>pending = [Response (ok_response events_json)], sent = [], screen = []\<rparr> =
      Some (Returned (Value events_json),
            \<lparr>pending = [], sent = [JStr (events_url (\<lambda>v. []) (JInt 7) ''json'')],
             screen = []\<rparr>)
   \<and> csv_reader (FromUrl (response_url (ok_response events_json))) = Inr events_table
   \<and> fetch_dynamic_events (\<lambda>v. []) csv_reader (JInt 7) ''csv''
        \<lparr>pending = [Response (ok_response events_json)], sent = [], screen = []\<rparr> =
      Some (Returned (Table events_table),
            \<lparr>pending = [], sent = [JStr (events_url (\<lambda>v. []) (JInt 7) ''csv'')],
             screen = []\<rparr>)"
proof -
  have m: "[CHR 0xE2, CHR 0x9D, CHR 0x8C] @ '' Error '' @ str_int (status_code server_error) @
             '': '' @ response_text server_error =
           [CHR 0xE2, CHR 0x9D, CHR 0x8C] @ '' Error 500: oops''"
    by (simp add: server_error_def str_int_def digits_of.simps digit_char_def)
  show ?thesis
    using fetch_dynamic_events_results [of server_error "\<lambda>v. []" csv_reader "JInt 7" "''csv''"
        "[]" "[]" "[]" JNull events_table]
      fetch_dynamic_events_results [of "ok_response events_json" "\<lambda>v. []" csv_reader "JInt 7"
        "''json''" "[]" "[]" "[]" events_json events_table]
      fetch_dynamic_events_results [of "ok_response events_json" "\<lambda>v. []" csv_reader "JInt 7"
        "''csv''" "[]" "[]" "[]" events_json events_table]
    unfolding m
    by (simp add: csv_reader_def)
qed

section \<open>A page of the matches collection that fails\<close>

lemma server_error_message:
  "http_error_message server_error = [CHR 0xE2, CHR 0x9D, CHR 0x8C] @ '' Error 500: oops''"
  by (simp add: http_error_message_def server_error_def cross_mark_def str_int_def
        digits_of.simps digit_char_def)

text \<open>
  Claim C1 at a failing input. The first page is a 200 page with one row and a \<^verbatim>\<open>next\<close>
  URL, the second answers 500 with the body \<^verbatim>\<open>oops\<close>. \<^verbatim>\<open>fetch_all_matches\<close> shows the
  error with the status and the body and then returns the table of the first page's row,
  a non-empty value and not an error; \<^verbatim>\<open>st.cache_data\<close> stores that truncated table. At
  the same 500 response the sibling \<^verbatim>\<open>fetch_dynamic_events\<close> shows the same message and
  returns \<^verbatim>\<open>None\<close>.
\<close>

theorem fetch_all_matches_non200_returns_partial:
  "fetch_all_matches
     \<lparr>pending = [Response (matches_page [match_row 1] page_2_url), Response server_error],
      sent = [], screen = []\<rparr> =
   Some (Returned (DataFrame [match_row 1]),
         \<lparr>pending = [], sent = [JStr matches_url, page_2_url],
          screen = [StError ([CHR 0xE2, CHR 0x9D, CHR 0x8C] @ '' Error 500: oops'')]\<rparr>)
   \<and> cached_fetch_all_matches
     \<lparr>page = \<lparr>pending = [Response (matches_page [match_row 1] page_2_url),
                            Response server_error],
               sent = [], screen = []\<rparr>,
      editions_cache = None, matches_cache = None\<rparr> =
   Some (Returned (DataFrame [match_row 1]),
         \<lparr>page = \<lparr>pending = [], sent = [JStr matches_url, page_2_url],
                   screen = [StError ([CHR 0xE2, CHR 0x9D, CHR 0x8C] @ '' Error 500: oops'')]\<rparr>,
          editions_cache = None,
          matches_cache =
            Some (DataFrame [match_row 1],
                  [StError ([CHR 0xE2, CHR 0x9D, CHR 0x8C] @ '' Error 500: oops'')])\<rparr>)
   \<and> fetch_dynamic_events (\<lambda>v. []) csv_reader (JInt 7) ''csv''
     \<lparr>pending = [Response server_error], sent = [], screen = []\<rparr> =
   Some (Returned (Value JNull),
         \<lparr>pending = [], sent = [JStr (events_url (\<lambda>v. []) (JInt 7) ''csv'')],
          screen = [StError ([CHR 0xE2, CHR 0x9D, CHR 0x8C] @ '' Error 500: oops'')]\<rparr>)"
proof -
  have st: "status_code server_error \<noteq> 200" by (simp add: server_error_def)
  have run: "fetch_all_matches
     \<lparr>pending = [Response (matches_page [match_row 1] page_2_url), Response server_error],
      sent = [], screen = []\<rparr> =
   Some (Returned (DataFrame [match_row 1]),
         \<lparr>pending = [], sent = [JStr matches_url, page_2_url],
          screen = [StError ([CHR 0xE2, CHR 0x9D, CHR 0x8C] @ '' Error 500: oops'')]\<rparr>)"
    using st matches_loop_non200 [OF matches_url_truthy, of "[matches_page [match_row 1] page_2_url]"
        server_error "[]" "[]" "[]" "[]"]
    by (simp add: fetch_all_matches_def server_error_message)
  have cached: "cached_fetch_all_matches
     \<lparr>page = \<lparr>pending = [Response (matches_page [match_row 1] page_2_url),
                            Response server_error],
               sent = [], screen = []\<rparr>,
      editions_cache = None, matches_cache = None\<rparr> =
   Some (Returned (DataFrame [match_row 1]),
         \<lparr>page = \<lparr>pending = [], sent = [JStr matches_url, page_2_url],
                   screen = [StError ([CHR 0xE2, CHR 0x9D, CHR 0x8C] @ '' Error 500: oops'')]\<rparr>,
          editions_cache = None,
          matches_cache =
            Some (DataFrame [match_row 1],
                  [StError ([CHR 0xE2, CHR 0x9D, CHR 0x8C] @ '' Error 500: oops'')])\<rparr>)"
    by (simp add: cached_fetch_all_matches_def run shown_since_def)
  have sibling: "fetch_dynamic_events (\<lambda>v. []) csv_reader (JInt 7) ''csv''
     \<lparr>pending = [Response server_error], sent = [], screen = []\<rparr> =
   Some (Returned (Value JNull),
         \<lparr>pending = [], sent = [JStr (events_url (\<lambda>v. []) (JInt 7) ''csv'')],
          screen = [StError ([CHR 0xE2, CHR 0x9D, CHR 0x8C] @ '' Error 500: oops'')]\<rparr>)"
    by (simp add: fetch_dynamic_events_reply server_error_message)
  from run cached sibling show ?thesis by simp
qed

end
